theory Spec2Isabelle
  imports Complex_Main "HOL-Library.Word"
begin

section \<open>Values of the runtime: errors, buffers\<close>

text \<open>
  The relay is TypeScript on Node. A \<^verbatim>\<open>Buffer\<close> is a list of bytes, a thrown exception is the
  \<open>Inl\<close> branch of a sum. The numbers that reach \<^verbatim>\<open>getWavHeader\<close> are a buffer length and two
  configured integers, so they are \<open>int\<close>; the one division of the source
  (\<^verbatim>\<open>bitsPerSample / 8\<close>) is JavaScript's exact division and is done in \<open>rat\<close>. (A product
  beyond the exact range of JavaScript's numbers is beyond every field's range as well.)
\<close>

type_synonym byte = "8 word"
type_synonym buffer = "byte list"

datatype js_error = RangeError | TypeError | SyntaxError | ENOENT

text \<open>\<^verbatim>\<open>Buffer.alloc(n)\<close>: n zero bytes.\<close>

definition alloc :: "nat \<Rightarrow> buffer" where
  "alloc n = replicate n 0"

text \<open>Overwriting a buffer in place from an offset; what does not fit is not written.\<close>

definition blit :: "byte list \<Rightarrow> nat \<Rightarrow> buffer \<Rightarrow> buffer" where
  "blit src off buf = take off buf @ take (length buf - off) src @ drop (off + length src) buf"

text \<open>\<^verbatim>\<open>buffer.write(string, offset)\<close> for the ASCII tags of the header.\<close>

definition buf_write :: "string \<Rightarrow> nat \<Rightarrow> buffer \<Rightarrow> js_error + buffer" where
  "buf_write s off buf =
     (if length buf < off then Inl RangeError else Inr (blit (map of_char s) off buf))"

text \<open>
  \<^verbatim>\<open>buffer.writeUInt32LE(value, offset)\<close> and \<^verbatim>\<open>buffer.writeUInt16LE(value, offset)\<close>: Node checks
  the value against the field's range, then the offset, and throws a RangeError; otherwise it
  stores the value's bytes, lowest first (a store into a byte keeps the integer part modulo 256).
\<close>

definition writeUInt32LE :: "rat \<Rightarrow> nat \<Rightarrow> buffer \<Rightarrow> js_error + buffer" where
  "writeUInt32LE v off buf =
     (if v > 4294967295 \<or> v < 0 then Inl RangeError
      else if length buf < off + 4 then Inl RangeError
      else let n = nat \<lfloor>v\<rfloor> in
        Inr (blit [of_nat n, of_nat (n div 256), of_nat (n div 65536), of_nat (n div 16777216)]
               off buf))"

definition writeUInt16LE :: "rat \<Rightarrow> nat \<Rightarrow> buffer \<Rightarrow> js_error + buffer" where
  "writeUInt16LE v off buf =
     (if v > 65535 \<or> v < 0 then Inl RangeError
      else if length buf < off + 2 then Inl RangeError
      else let n = nat \<lfloor>v\<rfloor> in Inr (blit [of_nat n, of_nat (n div 256)] off buf))"

text \<open>A sequence of writes on one buffer; the first exception ends it.\<close>

fun writes :: "(buffer \<Rightarrow> js_error + buffer) list \<Rightarrow> buffer \<Rightarrow> js_error + buffer" where
  "writes [] buf = Inr buf"
| "writes (w # ws) buf = (case w buf of Inl e \<Rightarrow> Inl e | Inr buf' \<Rightarrow> writes ws buf')"

text \<open>\<^verbatim>\<open>buffer.readUInt16LE(offset)\<close> and \<^verbatim>\<open>buffer.readUInt32LE(offset)\<close>, to state what a field holds.\<close>

definition readUInt16LE :: "buffer \<Rightarrow> nat \<Rightarrow> nat" where
  "readUInt16LE buf off = unat (buf ! off) + 256 * unat (buf ! (off + 1))"

definition readUInt32LE :: "buffer \<Rightarrow> nat \<Rightarrow> nat" where
  "readUInt32LE buf off =
     unat (buf ! off) + 256 * unat (buf ! (off + 1)) + 65536 * unat (buf ! (off + 2))
       + 16777216 * unat (buf ! (off + 3))"

section \<open>The WAV header\<close>

text \<open>
  \<^verbatim>\<open>getWavHeader\<close> stands twice in the sources, in the transcription client and in the bot
  module, with the same text; this is its one embedding, statement for statement.
\<close>

definition getWavHeader :: "int \<Rightarrow> int \<Rightarrow> int \<Rightarrow> int \<Rightarrow> js_error + buffer" where
  "getWavHeader dataLength sampleRate numChannels bitsPerSample =
     writes
      [buf_write ''RIFF'' 0,
       writeUInt32LE (of_int (36 + dataLength)) 4,
       buf_write ''WAVE'' 8,
       buf_write ''fmt '' 12,
       writeUInt32LE 16 16,
       writeUInt16LE 1 20,
       writeUInt16LE (of_int numChannels) 22,
       writeUInt32LE (of_int sampleRate) 24,
       writeUInt32LE (of_int sampleRate * of_int numChannels * (of_int bitsPerSample / 8)) 28,
       writeUInt16LE (of_int numChannels * (of_int bitsPerSample / 8)) 32,
       writeUInt16LE (of_int bitsPerSample) 34,
       buf_write ''data'' 36,
       writeUInt32LE (of_int dataLength) 40]
      (alloc 44)"

text \<open>The values every field can hold: outside of them a write throws.\<close>

definition header_fits :: "int \<Rightarrow> int \<Rightarrow> int \<Rightarrow> bool" where
  "header_fits dataLength sampleRate numChannels =
     (0 \<le> dataLength \<and> dataLength \<le> 4294967259 \<and> 0 \<le> sampleRate \<and> sampleRate \<le> 4294967295
      \<and> 0 \<le> numChannels \<and> numChannels \<le> 32767
      \<and> sampleRate * numChannels * 2 \<le> 4294967295)"

definition le16 :: "nat \<Rightarrow> byte list" where
  "le16 n = [of_nat n, of_nat (n div 256)]"

definition le32 :: "nat \<Rightarrow> byte list" where
  "le32 n = [of_nat n, of_nat (n div 256), of_nat (n div 65536), of_nat (n div 16777216)]"

section \<open>Strings, payloads and parsed JSON\<close>

text \<open>
  A JavaScript string is its list of code points. \<^verbatim>\<open>Buffer.toString()\<close> decodes UTF-8 the way
  Node does: a byte sequence that is not well-formed becomes U+FFFD (one for each maximal
  ill-formed prefix), and decoding goes on behind it. A string sent on a socket travels as
  its UTF-8 encoding, a lone surrogate as U+FFFD.
\<close>

type_synonym js_string = "nat list"

definition lit :: "string \<Rightarrow> js_string" where
  "lit s = map of_char s"

definition cont :: "nat \<Rightarrow> bool" where
  "cont c = (128 \<le> c \<and> c \<le> 191)"

fun dec :: "nat list \<Rightarrow> nat list" where
  "dec [] = []"
| "dec (b # bs) =
     (if b < 128 then b # dec bs
      else if 194 \<le> b \<and> b \<le> 223 then
        (case bs of
           [] \<Rightarrow> [65533]
         | c1 # r1 \<Rightarrow>
             if cont c1 then ((b - 192) * 64 + (c1 - 128)) # dec r1 else 65533 # dec bs)
      else if 224 \<le> b \<and> b \<le> 239 then
        (case bs of
           [] \<Rightarrow> [65533]
         | c1 # r1 \<Rightarrow>
             if (if b = 224 then 160 else 128) \<le> c1 \<and> c1 \<le> (if b = 237 then 159 else 191) then
               (case r1 of
                  [] \<Rightarrow> [65533]
                | c2 # r2 \<Rightarrow>
                    if cont c2 then ((b - 224) * 4096 + (c1 - 128) * 64 + (c2 - 128)) # dec r2
                    else 65533 # dec r1)
             else 65533 # dec bs)
      else if 240 \<le> b \<and> b \<le> 244 then
        (case bs of
           [] \<Rightarrow> [65533]
         | c1 # r1 \<Rightarrow>
             if (if b = 240 then 144 else 128) \<le> c1 \<and> c1 \<le> (if b = 244 then 143 else 191) then
               (case r1 of
                  [] \<Rightarrow> [65533]
                | c2 # r2 \<Rightarrow>
                    if cont c2 then
                      (case r2 of
                         [] \<Rightarrow> [65533]
                       | c3 # r3 \<Rightarrow>
                           if cont c3 then
                             ((b - 240) * 262144 + (c1 - 128) * 4096 + (c2 - 128) * 64 + (c3 - 128))
                               # dec r3
                           else 65533 # dec r2)
                    else 65533 # dec r1)
             else 65533 # dec bs)
      else 65533 # dec bs)"

definition utf8_decode :: "buffer \<Rightarrow> js_string" where
  "utf8_decode buf = dec (map unat buf)"

definition enc1 :: "nat \<Rightarrow> nat list" where
  "enc1 cp =
     (if cp < 128 then [cp]
      else if cp < 2048 then [192 + cp div 64, 128 + cp mod 64]
      else if (55296 \<le> cp \<and> cp \<le> 57343) \<or> 1114111 < cp then [239, 191, 189]
      else if cp < 65536 then [224 + cp div 4096, 128 + cp div 64 mod 64, 128 + cp mod 64]
      else [240 + cp div 262144, 128 + cp div 4096 mod 64, 128 + cp div 64 mod 64,
            128 + cp mod 64])"

definition utf8_encode :: "js_string \<Rightarrow> buffer" where
  "utf8_encode s = map of_nat (concat (map enc1 s))"

text \<open>
  What a socket's message handler receives: a \<^verbatim>\<open>Buffer\<close> (the case \<^verbatim>\<open>Buffer.isBuffer\<close> tests
  for) or a string. \<^verbatim>\<open>message.toString()\<close> decodes the one and returns the other.
\<close>

datatype raw_data = Binary buffer | Textual js_string

fun toString :: "raw_data \<Rightarrow> js_string" where
  "toString (Binary buf) = utf8_decode buf"
| "toString (Textual s) = s"

text \<open>The bytes of a message as it arrived, and of a string as it leaves in \<^verbatim>\<open>send\<close>.\<close>

fun payload_bytes :: "raw_data \<Rightarrow> buffer" where
  "payload_bytes (Binary buf) = buf"
| "payload_bytes (Textual s) = utf8_encode s"

text \<open>
  \<^verbatim>\<open>JSON.parse\<close> is the runtime's; the handlers take it as a parameter that returns the parsed
  value, or \<open>None\<close> where it throws a SyntaxError. An object is the list of its own
  properties.
\<close>

datatype json =
    JNull
  | JBool bool
  | JNum rat
  | JStr js_string
  | JArr "json list"
  | JObj "(js_string \<times> json) list"

text \<open>
  Reading a property (\<^verbatim>\<open>msg.type\<close>, \<^verbatim>\<open>msg.client\<close>, \<^verbatim>\<open>speakerInfo.name\<close>): a TypeError on
  null, \<open>None\<close> (undefined) where the value has no such property. The names the relay
  reads are no property of an array, a string, a number or a boolean.
\<close>

fun jget :: "json \<Rightarrow> js_string \<Rightarrow> js_error + json option" where
  "jget JNull k = Inl TypeError"
| "jget (JObj kvs) k = Inr (map_of kvs k)"
| "jget v k = Inr None"

text \<open>The \<^verbatim>\<open>in\<close> operator: a TypeError on anything that is not an object.\<close>

fun jin :: "js_string \<Rightarrow> json \<Rightarrow> js_error + bool" where
  "jin k (JObj kvs) = Inr (k \<in> fst ` set kvs)"
| "jin k (JArr xs) = Inr False"
| "jin k v = Inl TypeError"

fun truthy :: "json option \<Rightarrow> bool" where
  "truthy None = False"
| "truthy (Some JNull) = False"
| "truthy (Some (JBool b)) = b"
| "truthy (Some (JNum n)) = (n \<noteq> 0)"
| "truthy (Some (JStr s)) = (s \<noteq> [])"
| "truthy (Some v) = True"

text \<open>
  \<^verbatim>\<open>a !== b\<close> on values of which \<open>b\<close> comes from a fresh parse: an object or an array is
  identical to no other value.
\<close>

fun strict_neq :: "json option \<Rightarrow> json option \<Rightarrow> bool" where
  "strict_neq (Some (JArr xs)) b = True"
| "strict_neq (Some (JObj kvs)) b = True"
| "strict_neq a b = (a \<noteq> b)"

section \<open>The transcription client (the Audio Batcher)\<close>

text \<open>
  The class \<^verbatim>\<open>OpenAIClient\<close>. The record holds the object's fields and, below them, the part
  of the runtime its methods act on: the entries of its temporary directory (\<open>None\<close> when the
  directory does not exist), the repeating timers that are armed, the next timer handle, and
  the submissions that are under way. A scratch file is named by the clock value in its name;
  its content is what was just written and is carried by the submission.

  The sample rate and the channel count are read from the configuration module, which is not
  among the sources: they are a parameter.
\<close>

record audio_params =
  sampleRate :: int
  channels :: int

record submission =
  tempFile :: nat
  body :: buffer

record client =
  audioBuffer :: "buffer list"
  isProcessing :: bool
  onTranscriptionCallback :: bool
  processingInterval :: "nat option"
  tempDirEntries :: "nat list option"
  armed :: "nat list"
  nextHandle :: nat
  inflight :: "submission list"

text \<open>
  The constructor creates the temporary directory when it is missing. No callback is
  registered and no timer is armed.
\<close>

definition new_client :: "nat list option \<Rightarrow> client" where
  "new_client existing =
     \<lparr>audioBuffer = [], isProcessing = False, onTranscriptionCallback = False,
      processingInterval = None,
      tempDirEntries = Some (case existing of None \<Rightarrow> [] | Some fs \<Rightarrow> fs),
      armed = [], nextHandle = 0, inflight = []\<rparr>"

text \<open>
  \<^verbatim>\<open>initSession\<close>: \<^verbatim>\<open>setInterval\<close> arms a new repeating timer (every 5000 ms, the interval
  of each timer of this model), the field keeps its handle, and the result is \<^verbatim>\<open>true\<close>.
  \<^verbatim>\<open>setInterval\<close> with a function and a number does not throw, so the catch clause is dead.
\<close>

definition initSession :: "client \<Rightarrow> client \<times> bool" where
  "initSession c =
     (c\<lparr>armed := armed c @ [nextHandle c], processingInterval := Some (nextHandle c),
        nextHandle := Suc (nextHandle c)\<rparr>, True)"

definition sendAudioChunk :: "buffer \<Rightarrow> client \<Rightarrow> client" where
  "sendAudioChunk audioData c = c\<lparr>audioBuffer := audioBuffer c @ [audioData]\<rparr>"

definition onTranscription :: "client \<Rightarrow> client" where
  "onTranscription c = c\<lparr>onTranscriptionCallback := True\<rparr>"

definition writeFileSync :: "nat \<Rightarrow> client \<Rightarrow> js_error + client" where
  "writeFileSync f c =
     (case tempDirEntries c of
        None \<Rightarrow> Inl ENOENT
      | Some fs \<Rightarrow> Inr (c\<lparr>tempDirEntries := Some (if f \<in> set fs then fs else fs @ [f])\<rparr>))"

definition unlinkSync :: "nat \<Rightarrow> client \<Rightarrow> js_error + client" where
  "unlinkSync f c =
     (case tempDirEntries c of
        None \<Rightarrow> Inl ENOENT
      | Some fs \<Rightarrow>
          if f \<in> set fs then Inr (c\<lparr>tempDirEntries := Some (removeAll f fs)\<rparr>)
          else Inl ENOENT)"

text \<open>
  \<^verbatim>\<open>processAudioBuffer\<close> is an async method with one \<^verbatim>\<open>await\<close>, on the HTTP request. It is
  two steps of the event loop. The first runs from the call to the \<^verbatim>\<open>await\<close>: the check of
  the flag and of the buffer, the flag set, the segment swapped out, the container built,
  the scratch file written and read back, the request sent. An exception on the way goes
  to the catch clause (a log line) and the finally clause clears the flag.
  \<open>now\<close> is \<^verbatim>\<open>Date.now()\<close>.
\<close>

definition processAudioBuffer :: "audio_params \<Rightarrow> nat \<Rightarrow> client \<Rightarrow> client" where
  "processAudioBuffer cfg now c =
     (if isProcessing c \<or> audioBuffer c = [] then c
      else
        let rawAudioData = concat (audioBuffer c);
            c1 = c\<lparr>isProcessing := True, audioBuffer := []\<rparr>
        in case getWavHeader (int (length rawAudioData)) (sampleRate cfg) (channels cfg) 16 of
             Inl e \<Rightarrow> c1\<lparr>isProcessing := False\<rparr>
           | Inr wavHeader \<Rightarrow>
               (case writeFileSync now c1 of
                  Inl e \<Rightarrow> c1\<lparr>isProcessing := False\<rparr>
                | Inr c2 \<Rightarrow>
                    c2\<lparr>inflight := inflight c2
                         @ [\<lparr>tempFile = now, body = wavHeader @ rawAudioData\<rparr>]\<rparr>))"

text \<open>
  The second step runs when the request settles. The reply is the text of the response
  (\<open>None\<close> when the response has no data or no text), or the rejection that axios raises on a
  network failure and on a status outside 2xx. The step resumes the submission with index
  \<open>k\<close>, and returns with the client the calls it made to the transcription callback, each
  \<open>(text, isFinal)\<close>. After a reply: the scratch file is unlinked (an exception when it is
  gone), then the callback is called if the text is truthy and a callback is registered.
  After a rejection the rest of the try block is skipped. The finally clause clears the flag
  in each case.
\<close>

datatype http_reply = Replied "js_string option" | Rejected

definition processAudioBuffer_resume ::
  "nat \<Rightarrow> http_reply \<Rightarrow> client \<Rightarrow> client \<times> (js_string \<times> bool) list" where
  "processAudioBuffer_resume k reply c =
     (if k < length (inflight c) then
        let r = inflight c ! k;
            c1 = c\<lparr>inflight := take k (inflight c) @ drop (Suc k) (inflight c)\<rparr>
        in case reply of
             Rejected \<Rightarrow> (c1\<lparr>isProcessing := False\<rparr>, [])
           | Replied txt \<Rightarrow>
               (case unlinkSync (tempFile r) c1 of
                  Inl e \<Rightarrow> (c1\<lparr>isProcessing := False\<rparr>, [])
                | Inr c2 \<Rightarrow>
                    (case txt of
                       None \<Rightarrow> (c2\<lparr>isProcessing := False\<rparr>, [])
                     | Some transcription \<Rightarrow>
                         if transcription \<noteq> [] \<and> onTranscriptionCallback c2
                         then (c2\<lparr>isProcessing := False\<rparr>, [(transcription, True)])
                         else (c2\<lparr>isProcessing := False\<rparr>, [])))
      else (c, []))"

text \<open>
  \<^verbatim>\<open>endSession\<close>: the timer of the field is cleared; the remaining audio is processed by a
  call that is not awaited; then every entry of the temporary directory is unlinked and the
  directory removed (an exception of the sweep is caught and logged).
\<close>

definition endSession :: "audio_params \<Rightarrow> nat \<Rightarrow> client \<Rightarrow> client" where
  "endSession cfg now c =
     (let c1 = (case processingInterval c of
                  None \<Rightarrow> c
                | Some h \<Rightarrow> c\<lparr>armed := removeAll h (armed c), processingInterval := None\<rparr>);
          c2 = (if audioBuffer c1 \<noteq> [] then processAudioBuffer cfg now c1 else c1)
      in case tempDirEntries c2 of
           None \<Rightarrow> c2
         | Some fs \<Rightarrow> c2\<lparr>tempDirEntries := None\<rparr>)"

text \<open>
  The client under the event loop: each event runs one of the steps above to its end.
  A timer that is not armed does not fire.
\<close>

datatype client_event =
    InitSession
  | SendAudioChunk buffer
  | TimerFires nat nat
  | EndSession nat
  | Settles nat http_reply

fun client_step :: "audio_params \<Rightarrow> client_event \<Rightarrow> client \<Rightarrow> client" where
  "client_step cfg InitSession c = fst (initSession c)"
| "client_step cfg (SendAudioChunk audioData) c = sendAudioChunk audioData c"
| "client_step cfg (TimerFires h now) c =
     (if h \<in> set (armed c) then processAudioBuffer cfg now c else c)"
| "client_step cfg (EndSession now) c = endSession cfg now c"
| "client_step cfg (Settles k reply) c = fst (processAudioBuffer_resume k reply c)"

fun client_run :: "audio_params \<Rightarrow> client_event list \<Rightarrow> client \<Rightarrow> client" where
  "client_run cfg [] c = c"
| "client_run cfg (ev # evs) c = client_run cfg evs (client_step cfg ev c)"

section \<open>The relay\<close>

text \<open>
  The class \<^verbatim>\<open>TranscriptionProxy\<close>. A socket is a number; its \<^verbatim>\<open>readyState\<close> belongs to the
  socket and is a parameter of the handlers. The set of meeting sockets is a JavaScript
  \<^verbatim>\<open>Set\<close>: a list without repetition, in insertion order. The record keeps, after the
  object's fields, what the relay did to the outside: the \<^verbatim>\<open>send\<close> calls, the calls of
  \<^verbatim>\<open>appendTranscription\<close> and the \<^verbatim>\<open>close\<close> calls, each in order.

  The relay's client field is declared with a client class whose module is not among the
  sources. The client class that is, \<^verbatim>\<open>OpenAIClient\<close>, has the four methods the relay calls,
  and is the one the relay holds here.
\<close>

type_synonym ws = nat

datatype ready_state = CONNECTING | OPEN | CLOSING | CLOSED

datatype sent = SendString js_string | SendStringified json

record proxy =
  botClient :: "ws option"
  meetingBaasClients :: "ws list"
  gladiaClient :: client
  isGladiaSessionActive :: bool
  lastSpeaker :: "json option"
  activeBotId :: "js_string option"
  sends :: "(ws \<times> sent) list"
  appended :: "(js_string \<times> js_string) list"
  closes :: "ws list"

definition set_add :: "ws \<Rightarrow> ws list \<Rightarrow> ws list" where
  "set_add w xs = (if w \<in> set xs then xs else xs @ [w])"

definition set_delete :: "ws \<Rightarrow> ws list \<Rightarrow> ws list" where
  "set_delete w xs = removeAll w xs"

text \<open>The constructor: the bot id is kept, the client is created and given its callback.\<close>

definition new_proxy :: "js_string option \<Rightarrow> nat list option \<Rightarrow> proxy" where
  "new_proxy botId existing =
     \<lparr>botClient = None, meetingBaasClients = [],
      gladiaClient = onTranscription (new_client existing),
      isGladiaSessionActive = False, lastSpeaker = Some JNull, activeBotId = botId,
      sends = [], appended = [], closes = []\<rparr>"

definition is_open :: "(ws \<Rightarrow> ready_state) \<Rightarrow> ws option \<Rightarrow> bool" where
  "is_open readyState w = (case w of None \<Rightarrow> False | Some b \<Rightarrow> readyState b = OPEN)"

text \<open>
  The callback given to the client. It is async: it builds the message and, for a final
  result with a truthy bot id, calls \<^verbatim>\<open>appendTranscription\<close> and awaits it; when it goes on,
  it sends the message to the bot socket if there is one and it is open. \<open>t1\<close> and \<open>t2\<close> are
  the two readings of the clock. The two halves are separate functions; \<open>on_transcription\<close>
  runs them with the persistence call settling at once.
\<close>

definition transcriptionMsg :: "js_string \<Rightarrow> bool \<Rightarrow> nat \<Rightarrow> nat \<Rightarrow> json" where
  "transcriptionMsg txt isFinal t1 t2 =
     JObj [(lit ''type'', JStr (lit ''transcription'')),
           (lit ''data'',
              JObj [(lit ''text'', JStr txt), (lit ''isFinal'', JBool isFinal),
                    (lit ''startTime'', JNum (of_nat t1)), (lit ''endTime'', JNum (of_nat t2))])]"

definition on_transcription_begin :: "js_string \<Rightarrow> bool \<Rightarrow> proxy \<Rightarrow> proxy" where
  "on_transcription_begin txt isFinal p =
     (case activeBotId p of
        None \<Rightarrow> p
      | Some botId \<Rightarrow>
          if isFinal \<and> botId \<noteq> [] then p\<lparr>appended := appended p @ [(botId, txt)]\<rparr> else p)"

definition on_transcription_send ::
  "(ws \<Rightarrow> ready_state) \<Rightarrow> json \<Rightarrow> proxy \<Rightarrow> proxy" where
  "on_transcription_send readyState msg p =
     (case botClient p of
        None \<Rightarrow> p
      | Some b \<Rightarrow>
          if readyState b = OPEN then p\<lparr>sends := sends p @ [(b, SendStringified msg)]\<rparr> else p)"

definition on_transcription ::
  "(ws \<Rightarrow> ready_state) \<Rightarrow> nat \<Rightarrow> nat \<Rightarrow> js_string \<times> bool \<Rightarrow> proxy \<Rightarrow> proxy" where
  "on_transcription readyState t1 t2 ev p =
     on_transcription_send readyState (transcriptionMsg (fst ev) (snd ev) t1 t2)
       (on_transcription_begin (fst ev) (snd ev) p)"

text \<open>
  A request of the client settles inside the relay: the client's step runs, and the
  callback runs for each call the step made.
\<close>

definition relay_settles ::
  "(ws \<Rightarrow> ready_state) \<Rightarrow> nat \<Rightarrow> nat \<Rightarrow> nat \<Rightarrow> http_reply \<Rightarrow> proxy \<Rightarrow> proxy" where
  "relay_settles readyState t1 t2 k reply p =
     (let r = processAudioBuffer_resume k reply (gladiaClient p)
      in fold (on_transcription readyState t1 t2) (snd r) (p\<lparr>gladiaClient := fst r\<rparr>))"

subsection \<open>The first message of a connection\<close>

datatype role = Bot | Meeting

text \<open>
  The try block of the handler of the first message: the parse and the two property reads.
  The catch clause sets the connection up as a meeting connection.
\<close>

definition classify_try :: "(js_string \<Rightarrow> json option) \<Rightarrow> raw_data \<Rightarrow> js_error + role" where
  "classify_try JSON_parse message =
     (case JSON_parse (toString message) of
        None \<Rightarrow> Inl SyntaxError
      | Some msg \<Rightarrow>
          (case jget msg (lit ''type'') of
             Inl e \<Rightarrow> Inl e
           | Inr ty \<Rightarrow>
               if ty = Some (JStr (lit ''register'')) then
                 (case jget msg (lit ''client'') of
                    Inl e \<Rightarrow> Inl e
                  | Inr cl \<Rightarrow> if cl = Some (JStr (lit ''bot'')) then Inr Bot else Inr Meeting)
               else Inr Meeting))"

definition classify :: "(js_string \<Rightarrow> json option) \<Rightarrow> raw_data \<Rightarrow> role" where
  "classify JSON_parse message =
     (case classify_try JSON_parse message of Inl e \<Rightarrow> Meeting | Inr r \<Rightarrow> r)"

definition setupBotClient :: "ws \<Rightarrow> proxy \<Rightarrow> proxy" where
  "setupBotClient w p = p\<lparr>botClient := Some w\<rparr>"

text \<open>
  \<^verbatim>\<open>setupMeetingBaasClient\<close>. \<^verbatim>\<open>initSession\<close> has no \<^verbatim>\<open>await\<close>, so the promise it returns is
  resolved already, and the \<^verbatim>\<open>then\<close> callback that sets the flag runs when the handler has
  returned, before the event loop takes the next event: the two are one step.
\<close>

definition setupMeetingBaasClient :: "ws \<Rightarrow> proxy \<Rightarrow> proxy" where
  "setupMeetingBaasClient w p =
     (let p1 = p\<lparr>meetingBaasClients := set_add w (meetingBaasClients p)\<rparr>
      in if \<not> isGladiaSessionActive p1 then
           let r = initSession (gladiaClient p1)
           in p1\<lparr>gladiaClient := fst r, isGladiaSessionActive := snd r\<rparr>
         else p1)"

definition first_message ::
  "(js_string \<Rightarrow> json option) \<Rightarrow> ws \<Rightarrow> raw_data \<Rightarrow> proxy \<Rightarrow> proxy" where
  "first_message JSON_parse w message p =
     (case classify JSON_parse message of
        Bot \<Rightarrow> setupBotClient w p
      | Meeting \<Rightarrow> setupMeetingBaasClient w p)"

subsection \<open>The handlers of a meeting connection\<close>

text \<open>
  The try block of the message handler for a \<^verbatim>\<open>Buffer\<close>: the parse, the test for a speaker
  event (an array whose first element has the properties name and isSpeaking; the \<^verbatim>\<open>in\<close>
  operator throws on an element that is no object), and the update of the last speaker on
  a speaker event. Any other parsed value is logged. Every exception of the block is
  raised before the state changes.
\<close>

definition speaker_update :: "json \<Rightarrow> proxy \<Rightarrow> proxy" where
  "speaker_update speakerInfo p =
     (let isSpeaking = (case jget speakerInfo (lit ''isSpeaking'') of Inl e \<Rightarrow> None | Inr v \<Rightarrow> v);
          name = (case jget speakerInfo (lit ''name'') of Inl e \<Rightarrow> None | Inr v \<Rightarrow> v)
      in if truthy isSpeaking \<and> (lastSpeaker p = Some JNull \<or> strict_neq (lastSpeaker p) name)
         then p\<lparr>lastSpeaker := name\<rparr> else p)"

definition meeting_try :: "(js_string \<Rightarrow> json option) \<Rightarrow> buffer \<Rightarrow> proxy \<Rightarrow> js_error + proxy" where
  "meeting_try JSON_parse message p =
     (case JSON_parse (utf8_decode message) of
        None \<Rightarrow> Inl SyntaxError
      | Some jsonData \<Rightarrow>
          (case jsonData of
             JArr (x # xs) \<Rightarrow>
               (case jin (lit ''name'') x of
                  Inl e \<Rightarrow> Inl e
                | Inr hasName \<Rightarrow>
                    if hasName then
                      (case jin (lit ''isSpeaking'') x of
                         Inl e \<Rightarrow> Inl e
                       | Inr hasSpeaking \<Rightarrow> if hasSpeaking then Inr (speaker_update x p) else Inr p)
                    else Inr p)
           | _ \<Rightarrow> Inr p))"

text \<open>
  The message handler: for a \<^verbatim>\<open>Buffer\<close> the try block, and in its catch clause the audio
  chunk handed to the client if the session flag is set; any other message is logged. Then,
  behind every branch, \<^verbatim>\<open>message.toString()\<close> is sent to the bot socket if there is one and
  it is open.
\<close>

definition forward_to_bot :: "(ws \<Rightarrow> ready_state) \<Rightarrow> js_string \<Rightarrow> proxy \<Rightarrow> proxy" where
  "forward_to_bot readyState s p =
     (case botClient p of
        None \<Rightarrow> p
      | Some b \<Rightarrow> if readyState b = OPEN then p\<lparr>sends := sends p @ [(b, SendString s)]\<rparr> else p)"

definition meeting_branch :: "(js_string \<Rightarrow> json option) \<Rightarrow> raw_data \<Rightarrow> proxy \<Rightarrow> proxy" where
  "meeting_branch JSON_parse message p =
     (case message of
        Binary buf \<Rightarrow>
          (case meeting_try JSON_parse buf p of
             Inr p' \<Rightarrow> p'
           | Inl e \<Rightarrow>
               if isGladiaSessionActive p
               then p\<lparr>gladiaClient := sendAudioChunk buf (gladiaClient p)\<rparr> else p)
      | Textual s \<Rightarrow> p)"

definition meeting_message ::
  "(js_string \<Rightarrow> json option) \<Rightarrow> (ws \<Rightarrow> ready_state) \<Rightarrow> raw_data \<Rightarrow> proxy \<Rightarrow> proxy" where
  "meeting_message JSON_parse readyState message p =
     forward_to_bot readyState (toString message) (meeting_branch JSON_parse message p)"

text \<open>The close handler of a meeting connection.\<close>

definition meeting_close :: "audio_params \<Rightarrow> nat \<Rightarrow> ws \<Rightarrow> proxy \<Rightarrow> proxy" where
  "meeting_close cfg now w p =
     (let p1 = p\<lparr>meetingBaasClients := set_delete w (meetingBaasClients p)\<rparr>
      in if length (meetingBaasClients p1) = 0 \<and> isGladiaSessionActive p1 then
           p1\<lparr>gladiaClient := endSession cfg now (gladiaClient p1), isGladiaSessionActive := False\<rparr>
         else p1)"

subsection \<open>The handlers of the bot connection, and shutdown\<close>

definition bot_message :: "(ws \<Rightarrow> ready_state) \<Rightarrow> raw_data \<Rightarrow> proxy \<Rightarrow> proxy" where
  "bot_message readyState message p =
     p\<lparr>sends := sends p
          @ map (\<lambda>c. (c, SendString (toString message)))
              (filter (\<lambda>c. readyState c = OPEN) (meetingBaasClients p))\<rparr>"

definition bot_close :: "proxy \<Rightarrow> proxy" where
  "bot_close p = p\<lparr>botClient := None\<rparr>"

text \<open>
  \<^verbatim>\<open>shutdown\<close> awaits \<^verbatim>\<open>endSession()\<close>, which is not async and returns nothing: the \<^verbatim>\<open>await\<close>
  waits for no request. Then the flag is cleared and the open sockets are closed.
\<close>

definition shutdown :: "audio_params \<Rightarrow> (ws \<Rightarrow> ready_state) \<Rightarrow> nat \<Rightarrow> proxy \<Rightarrow> proxy" where
  "shutdown cfg readyState now p =
     (let p1 = (if isGladiaSessionActive p
                then p\<lparr>gladiaClient := endSession cfg now (gladiaClient p),
                       isGladiaSessionActive := False\<rparr>
                else p)
      in p1\<lparr>closes := closes p1 @ filter (\<lambda>c. readyState c = OPEN) (meetingBaasClients p1)
                @ (case botClient p1 of
                     None \<Rightarrow> []
                   | Some b \<Rightarrow> if readyState b = OPEN then [b] else [])\<rparr>)"

subsection \<open>Meeting connections coming and going\<close>

text \<open>
  A meeting connection registers when its first message has classified it, and deregisters
  when its close handler runs; a socket that is not registered has no such handler.
\<close>

datatype meeting_event = Register ws | Deregister ws nat

fun relay_step :: "audio_params \<Rightarrow> meeting_event \<Rightarrow> proxy \<Rightarrow> proxy" where
  "relay_step cfg (Register w) p = setupMeetingBaasClient w p"
| "relay_step cfg (Deregister w now) p =
     (if w \<in> set (meetingBaasClients p) then meeting_close cfg now w p else p)"

fun relay_run :: "audio_params \<Rightarrow> meeting_event list \<Rightarrow> proxy \<Rightarrow> proxy" where
  "relay_run cfg [] p = p"
| "relay_run cfg (ev # evs) p = relay_run cfg evs (relay_step cfg ev p)"

section \<open>Invariants\<close>

text \<open>
  At most one submission is under way, and while one is, the flag \<^verbatim>\<open>isProcessing\<close> is set.
\<close>

definition flight_inv :: "client \<Rightarrow> bool" where
  "flight_inv c = (length (inflight c) \<le> 1 \<and> (inflight c \<noteq> [] \<longrightarrow> isProcessing c))"

text \<open>
  The session flag of the relay is set exactly while a meeting connection is registered,
  and exactly while the client's timer field holds a handle.
\<close>

definition session_inv :: "proxy \<Rightarrow> bool" where
  "session_inv p =
     (isGladiaSessionActive p = (meetingBaasClients p \<noteq> [])
      \<and> isGladiaSessionActive p = (processingInterval (gladiaClient p) \<noteq> None))"

section \<open>A session with pending audio\<close>

text \<open>
  The relay after one meeting connection (socket 7) has registered and sent one chunk of
  audio, two bytes that do not parse as JSON: the session is active, the timer armed, the
  chunk in the client's buffer, nothing under way.
\<close>

definition demo_cfg :: audio_params where
  "demo_cfg = \<lparr>sampleRate = 16000, channels = 1\<rparr>"

definition demo_relay :: proxy where
  "demo_relay =
     meeting_message (\<lambda>s. None) (\<lambda>w. OPEN) (Binary [1, 2])
       (relay_step demo_cfg (Register 7) (new_proxy (Some (lit ''bot-1'')) None))"

text \<open>
  The client's timer firing inside the relay, and the session above with a bot connection
  (socket 9) registered and the first flush begun: its submission is under way.
\<close>

definition relay_timer :: "audio_params \<Rightarrow> nat \<Rightarrow> nat \<Rightarrow> proxy \<Rightarrow> proxy" where
  "relay_timer cfg h now p =
     p\<lparr>gladiaClient := client_step cfg (TimerFires h now) (gladiaClient p)\<rparr>"

definition demo_flushing :: proxy where
  "demo_flushing = relay_timer demo_cfg 0 5000 (setupBotClient 9 demo_relay)"

text \<open>
  The timers that are armed are the one of the client's timer field, if it holds one.
\<close>

definition timer_inv :: "proxy \<Rightarrow> bool" where
  "timer_inv p =
     (armed (gladiaClient p)
        = (case processingInterval (gladiaClient p) of None \<Rightarrow> [] | Some h \<Rightarrow> [h]))"

section \<open>Reading a transcript message, and sample texts\<close>

text \<open>The field \<^verbatim>\<open>data.isFinal\<close> of a message sent to the bot.\<close>

definition data_isFinal :: "json \<Rightarrow> json option" where
  "data_isFinal msg =
     (case jget msg (lit ''data'') of
        Inr (Some d) \<Rightarrow> (case jget d (lit ''isFinal'') of Inr v \<Rightarrow> v | Inl e \<Rightarrow> None)
      | _ \<Rightarrow> None)"

text \<open>
  The registration message of the bot (34 is the double quote), and what \<^verbatim>\<open>JSON.parse\<close>
  returns on three texts: that message, \<^verbatim>\<open>null\<close> and \<^verbatim>\<open>[1]\<close>. On the other texts used
  below it throws.
\<close>

definition register_text :: js_string where
  "register_text =
     lit ''{'' @ [34] @ lit ''type'' @ [34] @ lit '':'' @ [34] @ lit ''register'' @ [34] @ lit '',''
       @ [34] @ lit ''client'' @ [34] @ lit '':'' @ [34] @ lit ''bot'' @ [34] @ lit ''}''"

definition demo_parse :: "js_string \<Rightarrow> json option" where
  "demo_parse s =
     (if s = register_text
      then Some (JObj [(lit ''type'', JStr (lit ''register'')), (lit ''client'', JStr (lit ''bot''))])
      else if s = lit ''null'' then Some JNull
      else if s = lit ''[1]'' then Some (JArr [JNum 1])
      else None)"

section \<open>Well-formed UTF-8\<close>

text \<open>
  The byte sequences that are UTF-8 (the table of well-formed sequences of the Unicode
  standard): the payloads that decoding and encoding again give back.
\<close>

fun well_formed :: "nat list \<Rightarrow> bool" where
  "well_formed [] = True"
| "well_formed (b # bs) =
     (if b < 128 then well_formed bs
      else if 194 \<le> b \<and> b \<le> 223 then
        (case bs of c1 # r1 \<Rightarrow> cont c1 \<and> well_formed r1 | _ \<Rightarrow> False)
      else if 224 \<le> b \<and> b \<le> 239 then
        (case bs of
           c1 # c2 # r2 \<Rightarrow>
             (if b = 224 then 160 else 128) \<le> c1 \<and> c1 \<le> (if b = 237 then 159 else 191)
             \<and> cont c2 \<and> well_formed r2
         | _ \<Rightarrow> False)
      else if 240 \<le> b \<and> b \<le> 244 then
        (case bs of
           c1 # c2 # c3 # r3 \<Rightarrow>
             (if b = 240 then 144 else 128) \<le> c1 \<and> c1 \<le> (if b = 244 then 143 else 191)
             \<and> cont c2 \<and> cont c3 \<and> well_formed r3
         | _ \<Rightarrow> False)
      else False)"

section \<open>Properties of the header\<close>

lemma alloc_44:
  "alloc 44 = [0,0,0,0,0,0,0,0,0,0,0,0,0,0,0,0,0,0,0,0,0,0,0,0,0,0,0,0,0,0,0,0,0,0,0,0,0,0,0,0,0,0,0,0]"
  by (simp add: alloc_def numeral_eq_Suc)

lemma u16_roundtrip:
  "n < 65536 \<Longrightarrow> n mod 256 + 256 * (n div 256 mod 256) = (n::nat)"
proof -
  assume "n < 65536"
  then have "n div 256 < 256" by (simp add: less_mult_imp_div_less)
  then show ?thesis by simp
qed

lemma u32_roundtrip:
  "n < 4294967296 \<Longrightarrow>
   n mod 256 + 256 * (n div 256 mod 256) + 65536 * (n div 65536 mod 256)
     + 16777216 * (n div 16777216 mod 256) = (n::nat)"
proof -
  assume n: "n < 4294967296"
  define a where "a = n div 256"
  define b where "b = a div 256"
  define c where "c = b div 256"
  have c: "c < 256"
    using n unfolding a_def b_def c_def
    by (simp add: less_mult_imp_div_less div_mult2_eq [symmetric])
  have b2: "n div 65536 = b"
    unfolding a_def b_def by (simp add: div_mult2_eq [symmetric])
  have c2: "n div 16777216 = c"
    unfolding a_def b_def c_def by (simp add: div_mult2_eq [symmetric])
  have "n = n mod 256 + 256 * a" unfolding a_def by simp
  moreover have "a = a mod 256 + 256 * b" unfolding b_def by simp
  moreover have "b = b mod 256 + 256 * c" unfolding c_def by simp
  ultimately have "n = n mod 256 + 256 * (a mod 256) + 65536 * (b mod 256) + 16777216 * c"
    by linarith
  with c b2 c2 show ?thesis unfolding a_def by simp
qed

lemma read_le16: "n < 65536 \<Longrightarrow> readUInt16LE (pre @ le16 n @ post) (length pre) = n"
  using u16_roundtrip [of n] by (simp add: readUInt16LE_def le16_def nth_append unat_of_nat)

lemma read_le32: "n < 4294967296 \<Longrightarrow> readUInt32LE (pre @ le32 n @ post) (length pre) = n"
  using u32_roundtrip [of n] by (simp add: readUInt32LE_def le32_def nth_append unat_of_nat)

lemma header_shape:
  assumes "header_fits d sr ch"
  shows "getWavHeader d sr ch 16 = Inr
    (map of_char ''RIFF'' @ le32 (nat (36 + d)) @ map of_char ''WAVE'' @ map of_char ''fmt '' @
     le32 16 @ le16 1 @ le16 (nat ch) @ le32 (nat sr) @ le32 (nat (sr * ch * 2)) @
     le16 (nat (ch * 2)) @ le16 16 @ map of_char ''data'' @ le32 (nat d))"
proof -
  have f1: "\<lfloor>rat_of_int sr * rat_of_int ch * 2\<rfloor> = sr * ch * 2"
    by (metis floor_of_int of_int_mult of_int_numeral)
  have f2: "\<lfloor>rat_of_int ch * 2\<rfloor> = ch * 2"
    by (metis floor_of_int of_int_mult of_int_numeral)
  have r1: "rat_of_int sr * rat_of_int ch * 2 \<le> 4294967295"
    using assms unfolding header_fits_def by (metis of_int_le_iff of_int_mult of_int_numeral)
  have r2: "0 \<le> rat_of_int sr * rat_of_int ch * 2"
    using assms unfolding header_fits_def by simp
  show ?thesis
    using assms f1 f2 r1 r2 unfolding header_fits_def
    by (simp add: getWavHeader_def alloc_44 buf_write_def writeUInt32LE_def writeUInt16LE_def
        blit_def le16_def le32_def not_less Let_def)
qed

lemma length_le16 [simp]: "length (le16 n) = 2"
  by (simp add: le16_def)

lemma length_le32 [simp]: "length (le32 n) = 4"
  by (simp add: le32_def)

lemma read16_at:
  "length pre = off \<Longrightarrow> n < 65536 \<Longrightarrow> readUInt16LE (pre @ le16 n @ post) off = n"
  using read_le16 [of n pre post] by simp

lemma read32_at:
  "length pre = off \<Longrightarrow> n < 4294967296 \<Longrightarrow> readUInt32LE (pre @ le32 n @ post) off = n"
  using read_le32 [of n pre post] by simp

lemma w32_ok: "writeUInt32LE v off b = Inr b' \<Longrightarrow> 0 \<le> v \<and> v \<le> 4294967295"
  by (auto simp: writeUInt32LE_def split: if_splits)

lemma w16_ok: "writeUInt16LE v off b = Inr b' \<Longrightarrow> 0 \<le> v \<and> v \<le> 65535"
  by (auto simp: writeUInt16LE_def split: if_splits)

lemma w32_err: "writeUInt32LE v off buf = Inl e \<Longrightarrow> e = RangeError"
  by (auto simp: writeUInt32LE_def Let_def split: if_splits)

lemma w16_err: "writeUInt16LE v off buf = Inl e \<Longrightarrow> e = RangeError"
  by (auto simp: writeUInt16LE_def Let_def split: if_splits)

lemma bw_err: "buf_write s off buf = Inl e \<Longrightarrow> e = RangeError"
  by (auto simp: buf_write_def split: if_splits)

lemma writes_err:
  "writes ws buf = Inl e \<Longrightarrow> \<exists>w b. w \<in> set ws \<and> w b = Inl e"
  by (induction ws arbitrary: buf) (auto split: sum.splits)

lemma writes_ok:
  "writes ws buf = Inr h \<Longrightarrow> w \<in> set ws \<Longrightarrow> \<exists>b b'. w b = Inr b'"
  by (induction ws arbitrary: buf) (auto split: sum.splits)

lemma header_error: "getWavHeader d sr ch bits = Inl e \<Longrightarrow> e = RangeError"
proof -
  assume "getWavHeader d sr ch bits = Inl e"
  then obtain w b where w: "w \<in> set
      [buf_write ''RIFF'' 0,
       writeUInt32LE (of_int (36 + d)) 4,
       buf_write ''WAVE'' 8,
       buf_write ''fmt '' 12,
       writeUInt32LE 16 16,
       writeUInt16LE 1 20,
       writeUInt16LE (of_int ch) 22,
       writeUInt32LE (of_int sr) 24,
       writeUInt32LE (of_int sr * of_int ch * (of_int bits / 8)) 28,
       writeUInt16LE (of_int ch * (of_int bits / 8)) 32,
       writeUInt16LE (of_int bits) 34,
       buf_write ''data'' 36,
       writeUInt32LE (of_int d) 40]" and e: "w b = Inl e"
    unfolding getWavHeader_def by (blast dest: writes_err)
  from w have "(\<exists>s off. w = buf_write s off) \<or> (\<exists>v off. w = writeUInt32LE v off)
      \<or> (\<exists>v off. w = writeUInt16LE v off)"
    unfolding list.set insert_iff empty_iff by blast
  with e show ?thesis by (blast dest: w32_err w16_err bw_err)
qed

lemma header_unfit:
  assumes "\<not> header_fits d sr ch"
  shows "getWavHeader d sr ch 16 = Inl RangeError"
proof (cases "getWavHeader d sr ch 16")
  case (Inl e)
  then show ?thesis using header_error by blast
next
  case (Inr h)
  note ok = writes_ok [OF Inr [unfolded getWavHeader_def]]
  have "\<exists>b b'. writeUInt32LE (of_int (36 + d)) 4 b = Inr b'" by (rule ok) simp
  then have "rat_of_int (36 + d) \<le> 4294967295" by (blast dest: w32_ok)
  then have a: "36 + d \<le> 4294967295" by (simp only: of_int_le_numeral_iff)
  have "\<exists>b b'. writeUInt16LE (of_int ch) 22 b = Inr b'" by (rule ok) simp
  then have "0 \<le> rat_of_int ch" by (blast dest: w16_ok)
  then have b: "0 \<le> ch" by simp
  have "\<exists>b b'. writeUInt32LE (of_int sr) 24 b = Inr b'" by (rule ok) simp
  then have "0 \<le> rat_of_int sr \<and> rat_of_int sr \<le> 4294967295" by (blast dest: w32_ok)
  then have c: "0 \<le> sr \<and> sr \<le> 4294967295" by (simp only: of_int_le_numeral_iff of_int_0_le_iff)
  have "\<exists>b b'. writeUInt32LE (of_int sr * of_int ch * (of_int 16 / 8)) 28 b = Inr b'"
    by (rule ok) simp
  then have "rat_of_int sr * rat_of_int ch * (rat_of_int 16 / 8) \<le> 4294967295"
    by (blast dest: w32_ok)
  moreover have "rat_of_int sr * rat_of_int ch * (rat_of_int 16 / 8) = rat_of_int (sr * ch * 2)"
    by simp
  ultimately have "rat_of_int (sr * ch * 2) \<le> 4294967295" by (simp only:)
  then have d: "sr * ch * 2 \<le> 4294967295" by (simp only: of_int_le_numeral_iff)
  have "\<exists>b b'. writeUInt16LE (of_int ch * (of_int 16 / 8)) 32 b = Inr b'" by (rule ok) simp
  then have "rat_of_int ch * (rat_of_int 16 / 8) \<le> 65535" by (blast dest: w16_ok)
  moreover have "rat_of_int ch * (rat_of_int 16 / 8) = rat_of_int (ch * 2)" by simp
  ultimately have "rat_of_int (ch * 2) \<le> 65535" by (simp only:)
  then have e: "ch * 2 \<le> 65535" by (simp only: of_int_le_numeral_iff)
  have "\<exists>b b'. writeUInt32LE (of_int d) 40 b = Inr b'" by (rule ok) simp
  then have "0 \<le> rat_of_int d" by (blast dest: w32_ok)
  then have f: "0 \<le> d" by simp
  from a b c d e f have "header_fits d sr ch" by (simp add: header_fits_def)
  with assms show ?thesis by simp
qed

text \<open>
  Claim C5 (amended). For every data length, sample rate and channel count that fit the header's
  unsigned fields (\<open>header_fits\<close>), \<^verbatim>\<open>getWavHeader\<close> with 16 bits per sample returns 44 bytes:
  the tags RIFF, WAVE, fmt and data, and little-endian fields ChunkSize = 36 + dataLength,
  Subchunk1Size = 16, AudioFormat = 1, the channel count, the sample rate,
  byte rate = sampleRate * channels * 2, block align = channels * 2, bits per sample = 16 and
  Subchunk2Size = dataLength. For every other triple a field write throws a RangeError and
  there is no header. For dataLength 32000, sample rate 16000 and one channel the header is
  the 44 golden bytes.
\<close>

theorem wav_header_fields:
  "(header_fits d sr ch \<longrightarrow>
     (\<exists>h. getWavHeader d sr ch 16 = Inr h \<and> length h = 44
        \<and> take 4 h = map of_char ''RIFF''
        \<and> int (readUInt32LE h 4) = 36 + d
        \<and> take 4 (drop 8 h) = map of_char ''WAVE''
        \<and> take 4 (drop 12 h) = map of_char ''fmt ''
        \<and> readUInt32LE h 16 = 16
        \<and> readUInt16LE h 20 = 1
        \<and> int (readUInt16LE h 22) = ch
        \<and> int (readUInt32LE h 24) = sr
        \<and> int (readUInt32LE h 28) = sr * ch * 2
        \<and> int (readUInt16LE h 32) = ch * 2
        \<and> readUInt16LE h 34 = 16
        \<and> take 4 (drop 36 h) = map of_char ''data''
        \<and> int (readUInt32LE h 40) = d))
   \<and> (\<not> header_fits d sr ch \<longrightarrow> getWavHeader d sr ch 16 = Inl RangeError)
   \<and> getWavHeader 32000 16000 1 16 = Inr
        [0x52, 0x49, 0x46, 0x46, 0x24, 0x7D, 0x00, 0x00, 0x57, 0x41, 0x56, 0x45,
         0x66, 0x6D, 0x74, 0x20, 0x10, 0x00, 0x00, 0x00, 0x01, 0x00, 0x01, 0x00,
         0x80, 0x3E, 0x00, 0x00, 0x00, 0x7D, 0x00, 0x00, 0x02, 0x00, 0x10, 0x00,
         0x64, 0x61, 0x74, 0x61, 0x00, 0x7D, 0x00, 0x00]"
proof (intro conjI impI)
  assume fits: "header_fits d sr ch"
  define h where "h =
    map of_char ''RIFF'' @ le32 (nat (36 + d)) @ map of_char ''WAVE'' @ map of_char ''fmt '' @
     le32 16 @ le16 1 @ le16 (nat ch) @ le32 (nat sr) @ le32 (nat (sr * ch * 2)) @
     le16 (nat (ch * 2)) @ le16 16 @ map of_char ''data'' @ le32 (nat d)"
  have eq: "getWavHeader d sr ch 16 = Inr h"
    unfolding h_def by (rule header_shape [OF fits])
  have b: "0 \<le> d" "d \<le> 4294967259" "0 \<le> sr" "sr \<le> 4294967295" "0 \<le> ch" "ch \<le> 32767"
    "sr * ch * 2 \<le> 4294967295"
    using fits by (simp_all add: header_fits_def)
  have len: "length h = 44" by (simp add: h_def)
  have t0: "take 4 h = map of_char ''RIFF''" by (simp add: h_def)
  have t8: "take 4 (drop 8 h) = map of_char ''WAVE''" by (simp add: h_def)
  have t12: "take 4 (drop 12 h) = map of_char ''fmt ''" by (simp add: h_def)
  have t36: "take 4 (drop 36 h) = map of_char ''data''" by (simp add: h_def)
  have r4: "int (readUInt32LE h 4) = 36 + d"
    using b read32_at [of "map of_char ''RIFF''" 4 "nat (36 + d)"]
    by (simp add: h_def)
  have r16: "readUInt32LE h 16 = 16"
    using read32_at [of "map of_char ''RIFF'' @ le32 (nat (36 + d)) @ map of_char ''WAVE''
       @ map of_char ''fmt ''" 16 16]
    by (simp add: h_def)
  have r20: "readUInt16LE h 20 = 1"
    using read16_at [of "map of_char ''RIFF'' @ le32 (nat (36 + d)) @ map of_char ''WAVE''
       @ map of_char ''fmt '' @ le32 16" 20 1]
    by (simp add: h_def)
  have r22: "int (readUInt16LE h 22) = ch"
    using b read16_at [of "map of_char ''RIFF'' @ le32 (nat (36 + d)) @ map of_char ''WAVE''
       @ map of_char ''fmt '' @ le32 16 @ le16 1" 22 "nat ch"]
    by (simp add: h_def)
  have r24: "int (readUInt32LE h 24) = sr"
    using b read32_at [of "map of_char ''RIFF'' @ le32 (nat (36 + d)) @ map of_char ''WAVE''
       @ map of_char ''fmt '' @ le32 16 @ le16 1 @ le16 (nat ch)" 24 "nat sr"]
    by (simp add: h_def)
  have nn: "0 \<le> sr * ch * 2" using b by simp
  have r28: "int (readUInt32LE h 28) = sr * ch * 2"
    using b nn read32_at [of "map of_char ''RIFF'' @ le32 (nat (36 + d)) @ map of_char ''WAVE''
       @ map of_char ''fmt '' @ le32 16 @ le16 1 @ le16 (nat ch) @ le32 (nat sr)" 28
       "nat (sr * ch * 2)"]
    by (simp add: h_def)
  have r32: "int (readUInt16LE h 32) = ch * 2"
    using b read16_at [of "map of_char ''RIFF'' @ le32 (nat (36 + d)) @ map of_char ''WAVE''
       @ map of_char ''fmt '' @ le32 16 @ le16 1 @ le16 (nat ch) @ le32 (nat sr)
       @ le32 (nat (sr * ch * 2))" 32 "nat (ch * 2)"]
    by (simp add: h_def)
  have r34: "readUInt16LE h 34 = 16"
    using read16_at [of "map of_char ''RIFF'' @ le32 (nat (36 + d)) @ map of_char ''WAVE''
       @ map of_char ''fmt '' @ le32 16 @ le16 1 @ le16 (nat ch) @ le32 (nat sr)
       @ le32 (nat (sr * ch * 2)) @ le16 (nat (ch * 2))" 34 16]
    by (simp add: h_def)
  have r40: "int (readUInt32LE h 40) = d"
    using b read32_at [of "map of_char ''RIFF'' @ le32 (nat (36 + d)) @ map of_char ''WAVE''
       @ map of_char ''fmt '' @ le32 16 @ le16 1 @ le16 (nat ch) @ le32 (nat sr)
       @ le32 (nat (sr * ch * 2)) @ le16 (nat (ch * 2)) @ le16 16 @ map of_char ''data''" 40
       "nat d" "[]"]
    by (simp add: h_def)
  show "\<exists>h. getWavHeader d sr ch 16 = Inr h \<and> length h = 44
        \<and> take 4 h = map of_char ''RIFF''
        \<and> int (readUInt32LE h 4) = 36 + d
        \<and> take 4 (drop 8 h) = map of_char ''WAVE''
        \<and> take 4 (drop 12 h) = map of_char ''fmt ''
        \<and> readUInt32LE h 16 = 16
        \<and> readUInt16LE h 20 = 1
        \<and> int (readUInt16LE h 22) = ch
        \<and> int (readUInt32LE h 24) = sr
        \<and> int (readUInt32LE h 28) = sr * ch * 2
        \<and> int (readUInt16LE h 32) = ch * 2
        \<and> readUInt16LE h 34 = 16
        \<and> take 4 (drop 36 h) = map of_char ''data''
        \<and> int (readUInt32LE h 40) = d"
    using eq len t0 t8 t12 t36 r4 r16 r20 r22 r24 r28 r32 r34 r40 by blast
next
  assume "\<not> header_fits d sr ch"
  then show "getWavHeader d sr ch 16 = Inl RangeError" by (rule header_unfit)
next
  show "getWavHeader 32000 16000 1 16 = Inr
        [0x52, 0x49, 0x46, 0x46, 0x24, 0x7D, 0x00, 0x00, 0x57, 0x41, 0x56, 0x45,
         0x66, 0x6D, 0x74, 0x20, 0x10, 0x00, 0x00, 0x00, 0x01, 0x00, 0x01, 0x00,
         0x80, 0x3E, 0x00, 0x00, 0x00, 0x7D, 0x00, 0x00, 0x02, 0x00, 0x10, 0x00,
         0x64, 0x61, 0x74, 0x61, 0x00, 0x7D, 0x00, 0x00]"
    by (simp add: getWavHeader_def alloc_44 buf_write_def writeUInt32LE_def writeUInt16LE_def
        blit_def)
qed

theorem wav_header_fields_witness:
  "header_fits 32000 16000 1
   \<and> (\<exists>h. getWavHeader 32000 16000 1 16 = Inr h \<and> length h = 44
          \<and> int (readUInt32LE h 4) = 32036 \<and> int (readUInt16LE h 22) = 1
          \<and> int (readUInt32LE h 24) = 16000 \<and> int (readUInt32LE h 28) = 32000
          \<and> int (readUInt16LE h 32) = 2 \<and> int (readUInt32LE h 40) = 32000)
   \<and> \<not> header_fits 32000 16000 40000
   \<and> getWavHeader 32000 16000 40000 16 = Inl RangeError"
proof -
  have fits: "header_fits 32000 16000 1" by (simp add: header_fits_def)
  have unfit: "\<not> header_fits 32000 16000 40000" by (simp add: header_fits_def)
  from wav_header_fields [of 32000 16000 40000] unfit
  have "getWavHeader 32000 16000 40000 16 = Inl RangeError" by blast
  with fits unfit wav_header_fields [of 32000 16000 1] show ?thesis by auto
qed

text \<open>
  The claim as written, for every data length: a data length of 4294967260 bytes makes
  ChunkSize 2^32, the first field write throws, and no header is returned.
\<close>

theorem wav_header_range_counterexample:
  "header_fits 4294967260 16000 1 = False \<and> getWavHeader 4294967260 16000 1 16 = Inl RangeError"
  by (simp add: header_fits_def getWavHeader_def alloc_44 buf_write_def writeUInt32LE_def writeUInt16LE_def
        blit_def)

section \<open>One flush at a time\<close>

lemma flight_inv_new: "flight_inv (new_client existing)"
  by (simp add: flight_inv_def new_client_def)

lemma processAudioBuffer_skip: "isProcessing c \<Longrightarrow> processAudioBuffer cfg now c = c"
  by (simp add: processAudioBuffer_def)

lemma flight_inv_process: "flight_inv c \<Longrightarrow> flight_inv (processAudioBuffer cfg now c)"
  by (auto simp: flight_inv_def processAudioBuffer_def writeFileSync_def Let_def
      split: sum.splits option.splits)

lemma flight_inv_resume: "flight_inv c \<Longrightarrow> flight_inv (fst (processAudioBuffer_resume k reply c))"
  by (auto simp: flight_inv_def processAudioBuffer_resume_def unlinkSync_def Let_def
      split: sum.splits option.splits http_reply.splits if_splits)

lemma flight_inv_end: "flight_inv c \<Longrightarrow> flight_inv (endSession cfg now c)"
proof -
  assume inv: "flight_inv c"
  define c1 where "c1 = (case processingInterval c of
                  None \<Rightarrow> c
                | Some h \<Rightarrow> c\<lparr>armed := removeAll h (armed c), processingInterval := None\<rparr>)"
  define c2 where "c2 = (if audioBuffer c1 \<noteq> [] then processAudioBuffer cfg now c1 else c1)"
  have "flight_inv c1" using inv by (simp add: c1_def flight_inv_def split: option.splits)
  then have "flight_inv c2" by (simp add: c2_def flight_inv_process)
  then have "flight_inv (case tempDirEntries c2 of None \<Rightarrow> c2 | Some fs \<Rightarrow> c2\<lparr>tempDirEntries := None\<rparr>)"
    by (simp add: flight_inv_def split: option.splits)
  moreover have "endSession cfg now c =
      (case tempDirEntries c2 of None \<Rightarrow> c2 | Some fs \<Rightarrow> c2\<lparr>tempDirEntries := None\<rparr>)"
    unfolding endSession_def c2_def c1_def by (simp only: Let_def)
  ultimately show ?thesis by simp
qed

lemma flight_inv_step: "flight_inv c \<Longrightarrow> flight_inv (client_step cfg ev c)"
proof (cases ev)
  case InitSession
  assume "flight_inv c"
  then show ?thesis using InitSession by (simp add: flight_inv_def initSession_def)
next
  case (SendAudioChunk b)
  assume "flight_inv c"
  then show ?thesis using SendAudioChunk by (simp add: flight_inv_def sendAudioChunk_def)
next
  case (TimerFires h now)
  assume "flight_inv c"
  then show ?thesis using TimerFires by (simp add: flight_inv_process)
next
  case (EndSession now)
  assume "flight_inv c"
  then show ?thesis using EndSession by (simp add: flight_inv_end)
next
  case (Settles k reply)
  assume "flight_inv c"
  then show ?thesis using Settles by (simp add: flight_inv_resume)
qed

lemma flight_inv_run: "flight_inv c \<Longrightarrow> flight_inv (client_run cfg evs c)"
  by (induction evs arbitrary: c) (simp_all add: flight_inv_step)

text \<open>
  Claim C1. Whatever the order in which sessions are started, audio arrives, timers fire,
  \<^verbatim>\<open>endSession\<close> is called and requests settle, at most one submission to the backend is under
  way at any moment. A flush that begins while one is under way (the flag is set) is
  skipped: the call returns the client as it was, with nothing queued for later.
\<close>

theorem at_most_one_flush_in_flight:
  "length (inflight (client_run cfg evs (new_client existing))) \<le> 1
   \<and> (inflight (client_run cfg evs (new_client existing)) \<noteq> [] \<longrightarrow>
        processAudioBuffer cfg now (client_run cfg evs (new_client existing))
          = client_run cfg evs (new_client existing))
   \<and> (isProcessing c \<longrightarrow> processAudioBuffer cfg now c = c)"
proof -
  have inv: "flight_inv (client_run cfg evs (new_client existing))"
    by (rule flight_inv_run [OF flight_inv_new])
  then have "inflight (client_run cfg evs (new_client existing)) \<noteq> [] \<longrightarrow>
      isProcessing (client_run cfg evs (new_client existing))"
    by (simp add: flight_inv_def)
  with inv show ?thesis
    by (simp add: flight_inv_def processAudioBuffer_skip)
qed


theorem at_most_one_flush_in_flight_witness:
  "inflight (client_run \<lparr>sampleRate = 16000, channels = 1\<rparr>
       [InitSession, SendAudioChunk [1, 2], TimerFires 0 1000, SendAudioChunk [3]]
       (new_client None)) \<noteq> []
   \<and> isProcessing (client_run \<lparr>sampleRate = 16000, channels = 1\<rparr>
       [InitSession, SendAudioChunk [1, 2], TimerFires 0 1000, SendAudioChunk [3]]
       (new_client None))
   \<and> length (inflight (client_run \<lparr>sampleRate = 16000, channels = 1\<rparr>
       [InitSession, SendAudioChunk [1, 2], TimerFires 0 1000, SendAudioChunk [3]]
       (new_client None))) \<le> 1
   \<and> processAudioBuffer \<lparr>sampleRate = 16000, channels = 1\<rparr> 6000
        (client_run \<lparr>sampleRate = 16000, channels = 1\<rparr>
          [InitSession, SendAudioChunk [1, 2], TimerFires 0 1000, SendAudioChunk [3]]
          (new_client None))
      = client_run \<lparr>sampleRate = 16000, channels = 1\<rparr>
          [InitSession, SendAudioChunk [1, 2], TimerFires 0 1000, SendAudioChunk [3]]
          (new_client None)"
proof -
  let ?cfg = "\<lparr>sampleRate = 16000, channels = 1\<rparr>"
  let ?c = "client_run ?cfg
       [InitSession, SendAudioChunk [1, 2], TimerFires 0 1000, SendAudioChunk [3]]
       (new_client None)"
  have h: "getWavHeader 2 16000 1 16 = Inr
     (map of_char ''RIFF'' @ le32 (nat (36 + 2)) @ map of_char ''WAVE'' @ map of_char ''fmt '' @
     le32 16 @ le16 1 @ le16 (nat 1) @ le32 (nat 16000) @ le32 (nat (16000 * 1 * 2)) @
     le16 (nat (1 * 2)) @ le16 16 @ map of_char ''data'' @ le32 (nat 2))"
    by (rule header_shape) (simp add: header_fits_def)
  have a: "inflight ?c \<noteq> []"
    by (simp add: new_client_def initSession_def sendAudioChunk_def processAudioBuffer_def
        writeFileSync_def h)
  have b: "isProcessing ?c"
    by (simp add: new_client_def initSession_def sendAudioChunk_def processAudioBuffer_def
        writeFileSync_def h)
  from at_most_one_flush_in_flight [of ?cfg
      "[InitSession, SendAudioChunk [1, 2], TimerFires 0 1000, SendAudioChunk [3]]" None 6000 ?c]
    a b show ?thesis by blast
qed

section \<open>The session follows the meeting connections\<close>

lemma session_inv_new: "session_inv (new_proxy botId existing)"
  by (simp add: session_inv_def new_proxy_def new_client_def onTranscription_def)

lemma endSession_interval: "processingInterval (endSession cfg now c) = None"
  by (simp add: endSession_def processAudioBuffer_def writeFileSync_def Let_def
      split: option.splits sum.splits)

lemma session_inv_register: "session_inv p \<Longrightarrow> session_inv (setupMeetingBaasClient w p)"
  by (auto simp: session_inv_def setupMeetingBaasClient_def set_add_def initSession_def Let_def)

lemma session_inv_close:
  "session_inv p \<Longrightarrow> w \<in> set (meetingBaasClients p) \<Longrightarrow> session_inv (meeting_close cfg now w p)"
  by (auto simp: session_inv_def meeting_close_def set_delete_def Let_def endSession_interval)

lemma session_inv_step: "session_inv p \<Longrightarrow> session_inv (relay_step cfg ev p)"
  by (cases ev) (simp_all add: session_inv_register session_inv_close)

lemma session_inv_run: "session_inv p \<Longrightarrow> session_inv (relay_run cfg evs p)"
  by (induction evs arbitrary: p) (simp_all add: session_inv_step)

lemma removeAll_only: "set xs = {w} \<Longrightarrow> removeAll w xs = []"
proof -
  assume "set xs = {w}"
  then have "set (removeAll w xs) = {}" by simp
  then show ?thesis by (simp only: set_empty)
qed

text \<open>
  Claim C2. After every sequence of registrations and deregistrations of meeting connections,
  each handled to the end of its step (the \<^verbatim>\<open>then\<close> callback of the start included), the
  session flag is set if and only if the meeting set is not empty, and if and only if the
  client's timer is armed. A registration while the flag is clear calls \<^verbatim>\<open>initSession\<close> and
  sets the flag; the deregistration of the only meeting connection while the flag is set
  calls \<^verbatim>\<open>endSession\<close> and clears it.
\<close>

theorem session_active_iff_meetings:
  "isGladiaSessionActive (relay_run cfg evs (new_proxy botId existing))
     = (meetingBaasClients (relay_run cfg evs (new_proxy botId existing)) \<noteq> [])
   \<and> isGladiaSessionActive (relay_run cfg evs (new_proxy botId existing))
     = (processingInterval (gladiaClient (relay_run cfg evs (new_proxy botId existing))) \<noteq> None)
   \<and> (\<not> isGladiaSessionActive p \<longrightarrow>
        isGladiaSessionActive (relay_step cfg (Register w) p)
        \<and> gladiaClient (relay_step cfg (Register w) p) = fst (initSession (gladiaClient p)))
   \<and> (isGladiaSessionActive p \<and> set (meetingBaasClients p) = {w} \<longrightarrow>
        \<not> isGladiaSessionActive (relay_step cfg (Deregister w now) p)
        \<and> meetingBaasClients (relay_step cfg (Deregister w now) p) = []
        \<and> gladiaClient (relay_step cfg (Deregister w now) p) = endSession cfg now (gladiaClient p))"
proof -
  have "session_inv (relay_run cfg evs (new_proxy botId existing))"
    by (rule session_inv_run [OF session_inv_new])
  then have inv: "isGladiaSessionActive (relay_run cfg evs (new_proxy botId existing))
     = (meetingBaasClients (relay_run cfg evs (new_proxy botId existing)) \<noteq> [])"
     "isGladiaSessionActive (relay_run cfg evs (new_proxy botId existing))
     = (processingInterval (gladiaClient (relay_run cfg evs (new_proxy botId existing))) \<noteq> None)"
    unfolding session_inv_def by blast+
  have reg: "\<not> isGladiaSessionActive p \<longrightarrow>
        isGladiaSessionActive (relay_step cfg (Register w) p)
        \<and> gladiaClient (relay_step cfg (Register w) p) = fst (initSession (gladiaClient p))"
    by (simp add: setupMeetingBaasClient_def initSession_def Let_def)
  have dereg: "isGladiaSessionActive p \<and> set (meetingBaasClients p) = {w} \<longrightarrow>
        \<not> isGladiaSessionActive (relay_step cfg (Deregister w now) p)
        \<and> meetingBaasClients (relay_step cfg (Deregister w now) p) = []
        \<and> gladiaClient (relay_step cfg (Deregister w now) p) = endSession cfg now (gladiaClient p)"
    by (auto simp: meeting_close_def set_delete_def Let_def removeAll_only)
  from inv reg dereg show ?thesis by blast
qed

theorem session_active_iff_meetings_witness:
  "\<not> isGladiaSessionActive (new_proxy None None)
   \<and> isGladiaSessionActive (relay_step \<lparr>sampleRate = 16000, channels = 1\<rparr> (Register 7) (new_proxy None None))
   \<and> set (meetingBaasClients (relay_step \<lparr>sampleRate = 16000, channels = 1\<rparr> (Register 7) (new_proxy None None))) = {7}
   \<and> \<not> isGladiaSessionActive
        (relay_step \<lparr>sampleRate = 16000, channels = 1\<rparr> (Deregister 7 100)
          (relay_step \<lparr>sampleRate = 16000, channels = 1\<rparr> (Register 7) (new_proxy None None)))
   \<and> isGladiaSessionActive
        (relay_run \<lparr>sampleRate = 16000, channels = 1\<rparr> [Register 7, Register 8, Deregister 7 100]
          (new_proxy None None))
   \<and> meetingBaasClients
        (relay_run \<lparr>sampleRate = 16000, channels = 1\<rparr> [Register 7, Register 8, Deregister 7 100]
          (new_proxy None None)) = [8]"
proof -
  let ?cfg = "\<lparr>sampleRate = 16000, channels = 1\<rparr>"
  let ?p0 = "new_proxy None None"
  let ?p1 = "relay_step ?cfg (Register 7) ?p0"
  have a: "\<not> isGladiaSessionActive ?p0" by (simp add: new_proxy_def)
  have b: "set (meetingBaasClients ?p1) = {7}"
    by (simp add: new_proxy_def setupMeetingBaasClient_def set_add_def Let_def)
  have c: "meetingBaasClients (relay_run ?cfg [Register 7, Register 8, Deregister 7 100] ?p0) = [8]"
    by (simp add: new_proxy_def setupMeetingBaasClient_def set_add_def Let_def initSession_def
        meeting_close_def set_delete_def)
  from session_active_iff_meetings [of ?cfg "[Register 7, Register 8, Deregister 7 100]" None None ?p0 7 100]
  have s0: "isGladiaSessionActive (relay_run ?cfg [Register 7, Register 8, Deregister 7 100] ?p0)
     = (meetingBaasClients (relay_run ?cfg [Register 7, Register 8, Deregister 7 100] ?p0) \<noteq> [])"
    and s1: "isGladiaSessionActive ?p1" using a by blast+
  from session_active_iff_meetings [of ?cfg "[]" None None ?p1 7 100] s1 b
  have s2: "\<not> isGladiaSessionActive (relay_step ?cfg (Deregister 7 100) ?p1)" by blast
  from a s1 b s2 s0 c show ?thesis by simp
qed

section \<open>Ending a session, and the scratch file\<close>

lemma demo_header: "getWavHeader 2 16000 1 16 = Inr
     (map of_char ''RIFF'' @ le32 38 @ map of_char ''WAVE'' @ map of_char ''fmt '' @
     le32 16 @ le16 1 @ le16 1 @ le32 16000 @ le32 32000 @
     le16 2 @ le16 16 @ map of_char ''data'' @ le32 2)"
  using header_shape [of 2 16000 1] by (simp add: header_fits_def)

lemma demo_relay_client:
  "gladiaClient demo_relay =
     \<lparr>audioBuffer = [[1, 2]], isProcessing = False, onTranscriptionCallback = True,
      processingInterval = Some 0, tempDirEntries = Some [], armed = [0], nextHandle = 1,
      inflight = []\<rparr>"
  by (simp add: demo_relay_def demo_cfg_def new_proxy_def new_client_def onTranscription_def
      setupMeetingBaasClient_def set_add_def initSession_def Let_def meeting_message_def
      meeting_branch_def meeting_try_def forward_to_bot_def sendAudioChunk_def)

lemma demo_relay_flags:
  "isGladiaSessionActive demo_relay \<and> meetingBaasClients demo_relay = [7]"
  by (simp add: demo_relay_def demo_cfg_def new_proxy_def new_client_def onTranscription_def
      setupMeetingBaasClient_def set_add_def initSession_def Let_def meeting_message_def
      meeting_branch_def meeting_try_def forward_to_bot_def sendAudioChunk_def)

text \<open>
  Claim C3, at a failing input. The last meeting connection closes while a segment is
  pending. \<^verbatim>\<open>endSession\<close> cancels the timer and starts the final flush, but returns, and the
  relay clears the session flag, while that submission is still under way; the sweep of the
  temporary directory has removed its scratch file, so that the reply, when it comes, fails
  at the unlink and no transcript is delivered. \<^verbatim>\<open>shutdown\<close> ends the same way. And when a
  flush is under way as \<^verbatim>\<open>endSession\<close> is called, the final flush is skipped: the pending
  segment stays in the buffer with no timer left to flush it.
\<close>

theorem end_does_not_await_final_flush:
  "\<not> isGladiaSessionActive (relay_step demo_cfg (Deregister 7 1000) demo_relay)
   \<and> armed (gladiaClient (relay_step demo_cfg (Deregister 7 1000) demo_relay)) = []
   \<and> isProcessing (gladiaClient (relay_step demo_cfg (Deregister 7 1000) demo_relay))
   \<and> map tempFile (inflight (gladiaClient (relay_step demo_cfg (Deregister 7 1000) demo_relay))) = [1000]
   \<and> tempDirEntries (gladiaClient (relay_step demo_cfg (Deregister 7 1000) demo_relay)) = None
   \<and> snd (processAudioBuffer_resume 0 (Replied (Some (lit ''hello'')))
            (gladiaClient (relay_step demo_cfg (Deregister 7 1000) demo_relay))) = []
   \<and> isProcessing (gladiaClient (shutdown demo_cfg (\<lambda>w. OPEN) 1000 demo_relay))
   \<and> \<not> isGladiaSessionActive (shutdown demo_cfg (\<lambda>w. OPEN) 1000 demo_relay)
   \<and> audioBuffer (endSession demo_cfg 2000
         (sendAudioChunk [3] (processAudioBuffer demo_cfg 1000 (gladiaClient demo_relay)))) = [[3]]
   \<and> armed (endSession demo_cfg 2000
         (sendAudioChunk [3] (processAudioBuffer demo_cfg 1000 (gladiaClient demo_relay)))) = []"
  by (simp add: demo_relay_flags demo_relay_client meeting_close_def set_delete_def endSession_def
      processAudioBuffer_def writeFileSync_def demo_cfg_def demo_header
      processAudioBuffer_resume_def unlinkSync_def shutdown_def sendAudioChunk_def)

text \<open>
  Claim C4, at a failing input. A flush stages its container in scratch file 1000 and the
  submission is rejected: the flush is over (nothing under way, flag clear) and the scratch
  file is still in the temporary directory. After a reply it is gone.
\<close>

theorem scratch_file_survives_failed_submission:
  "tempDirEntries (client_run demo_cfg [TimerFires 0 1000] (gladiaClient demo_relay)) = Some [1000]
   \<and> tempDirEntries (client_run demo_cfg [TimerFires 0 1000, Settles 0 Rejected] (gladiaClient demo_relay))
       = Some [1000]
   \<and> inflight (client_run demo_cfg [TimerFires 0 1000, Settles 0 Rejected] (gladiaClient demo_relay)) = []
   \<and> \<not> isProcessing (client_run demo_cfg [TimerFires 0 1000, Settles 0 Rejected] (gladiaClient demo_relay))
   \<and> tempDirEntries
        (client_run demo_cfg [TimerFires 0 1000, Settles 0 (Replied (Some (lit ''hello'')))]
           (gladiaClient demo_relay)) = Some []"
  by (simp add: demo_relay_client processAudioBuffer_def writeFileSync_def demo_cfg_def demo_header
      processAudioBuffer_resume_def unlinkSync_def lit_def Let_def)

section \<open>What a flush emits\<close>

lemma resume_emits:
  "snd (processAudioBuffer_resume k reply c) = []
   \<or> (\<exists>txt. txt \<noteq> [] \<and> reply = Replied (Some txt)
         \<and> snd (processAudioBuffer_resume k reply c) = [(txt, True)])"
  by (auto simp: processAudioBuffer_resume_def Let_def
      split: http_reply.splits sum.splits option.splits)

lemma resume_empty_text:
  "snd (processAudioBuffer_resume k (Replied (Some [])) c) = []"
  using resume_emits [of k "Replied (Some [])" c] by auto

lemma resume_no_text:
  "snd (processAudioBuffer_resume k (Replied None) c) = []"
  using resume_emits [of k "Replied None" c] by auto

lemma resume_clears_flag:
  "k < length (inflight c) \<Longrightarrow> \<not> isProcessing (fst (processAudioBuffer_resume k reply c))"
  by (auto simp: processAudioBuffer_resume_def Let_def
      split: http_reply.splits sum.splits option.splits)

lemma resume_text:
  "k < length (inflight c) \<Longrightarrow> tempDirEntries c = Some fs \<Longrightarrow> tempFile (inflight c ! k) \<in> set fs
   \<Longrightarrow> onTranscriptionCallback c \<Longrightarrow> txt \<noteq> []
   \<Longrightarrow> snd (processAudioBuffer_resume k (Replied (Some txt)) c) = [(txt, True)]"
  by (simp add: processAudioBuffer_resume_def Let_def unlinkSync_def)

text \<open>
  Claim C6 (amended). When the backend replies with an empty text, or with none, the flush
  calls the transcription callback not at all: no transcript event is emitted, nothing is
  sent to the bot connection and nothing is handed to persistence. The flush still ends
  normally, every exception of its body being caught: the submission is no longer under way
  and the flag is clear. A text that is not empty is emitted once, as final, when a callback
  is registered and the scratch file is there to be unlinked.
\<close>

theorem empty_text_is_suppressed:
  "snd (processAudioBuffer_resume k (Replied (Some [])) c) = []
   \<and> snd (processAudioBuffer_resume k (Replied None) c) = []
   \<and> sends (relay_settles readyState t1 t2 k (Replied (Some [])) p) = sends p
   \<and> appended (relay_settles readyState t1 t2 k (Replied (Some [])) p) = appended p
   \<and> (k < length (inflight c) \<longrightarrow>
        \<not> isProcessing (fst (processAudioBuffer_resume k (Replied (Some [])) c))
        \<and> length (inflight (fst (processAudioBuffer_resume k (Replied (Some [])) c)))
            < length (inflight c))
   \<and> (k < length (inflight c) \<and> tempDirEntries c = Some fs \<and> tempFile (inflight c ! k) \<in> set fs
        \<and> onTranscriptionCallback c \<and> txt \<noteq> [] \<longrightarrow>
        snd (processAudioBuffer_resume k (Replied (Some txt)) c) = [(txt, True)])"
proof -
  have a: "length (inflight (fst (processAudioBuffer_resume k (Replied (Some [])) c)))
            < length (inflight c)" if "k < length (inflight c)"
    using that
    by (auto simp: processAudioBuffer_resume_def Let_def unlinkSync_def
        split: sum.splits option.splits if_splits)
  show ?thesis
    using a by (simp add: resume_empty_text resume_no_text relay_settles_def Let_def
        resume_clears_flag resume_text)
qed

lemma demo_flushing_client:
  "gladiaClient demo_flushing =
     \<lparr>audioBuffer = [], isProcessing = True, onTranscriptionCallback = True,
      processingInterval = Some 0, tempDirEntries = Some [5000], armed = [0], nextHandle = 1,
      inflight = [\<lparr>tempFile = 5000,
                   body = (map of_char ''RIFF'' @ le32 38 @ map of_char ''WAVE''
                     @ map of_char ''fmt '' @ le32 16 @ le16 1 @ le16 1 @ le32 16000 @ le32 32000
                     @ le16 2 @ le16 16 @ map of_char ''data'' @ le32 2) @ [1, 2]\<rparr>]\<rparr>"
  by (simp add: demo_flushing_def relay_timer_def setupBotClient_def demo_relay_client
      processAudioBuffer_def writeFileSync_def demo_cfg_def demo_header)

lemma demo_flushing_bot: "botClient demo_flushing = Some 9"
  by (simp add: demo_flushing_def relay_timer_def setupBotClient_def)

theorem empty_text_is_suppressed_witness:
  "0 < length (inflight (gladiaClient demo_flushing))
   \<and> tempDirEntries (gladiaClient demo_flushing) = Some [5000]
   \<and> tempFile (inflight (gladiaClient demo_flushing) ! 0) \<in> set [5000]
   \<and> onTranscriptionCallback (gladiaClient demo_flushing)
   \<and> lit ''hi'' \<noteq> []
   \<and> snd (processAudioBuffer_resume 0 (Replied (Some (lit ''hi''))) (gladiaClient demo_flushing))
        = [(lit ''hi'', True)]
   \<and> \<not> isProcessing
         (fst (processAudioBuffer_resume 0 (Replied (Some [])) (gladiaClient demo_flushing)))"
proof -
  have h: "0 < length (inflight (gladiaClient demo_flushing))"
    "tempDirEntries (gladiaClient demo_flushing) = Some [5000]"
    "tempFile (inflight (gladiaClient demo_flushing) ! 0) \<in> set [5000]"
    "onTranscriptionCallback (gladiaClient demo_flushing)"
    "lit ''hi'' \<noteq> []"
    by (simp_all add: demo_flushing_client lit_def)
  from empty_text_is_suppressed
    [of 0 "gladiaClient demo_flushing" "\<lambda>w. OPEN" 0 0 demo_flushing "[5000]" "lit ''hi''"] h
  show ?thesis by blast
qed

text \<open>
  The claim as written: a bot connection is registered and open, a flush is under way, and
  the backend replies with the empty text. No call of the callback, no message to the bot.
\<close>

theorem empty_text_counterexample:
  "is_open (\<lambda>w. OPEN) (botClient demo_flushing)
   \<and> map tempFile (inflight (gladiaClient demo_flushing)) = [5000]
   \<and> snd (processAudioBuffer_resume 0 (Replied (Some [])) (gladiaClient demo_flushing)) = []
   \<and> sends (relay_settles (\<lambda>w. OPEN) 6000 6000 0 (Replied (Some [])) demo_flushing)
        = sends demo_flushing
   \<and> inflight (gladiaClient
        (relay_settles (\<lambda>w. OPEN) 6000 6000 0 (Replied (Some [])) demo_flushing)) = []"
  by (simp add: is_open_def demo_flushing_bot demo_flushing_client relay_settles_def
      processAudioBuffer_resume_def unlinkSync_def Let_def)

section \<open>Starting a session\<close>

lemma processAudioBuffer_timers:
  "armed (processAudioBuffer cfg now c) = armed c
   \<and> processingInterval (processAudioBuffer cfg now c) = processingInterval c"
  by (simp add: processAudioBuffer_def writeFileSync_def Let_def split: sum.splits option.splits)

lemma endSession_armed:
  "armed (endSession cfg now c)
     = (case processingInterval c of None \<Rightarrow> armed c | Some h \<Rightarrow> removeAll h (armed c))"
  by (simp add: endSession_def Let_def processAudioBuffer_timers split: option.splits)

lemma timer_inv_new: "timer_inv (new_proxy botId existing)"
  by (simp add: timer_inv_def new_proxy_def new_client_def onTranscription_def)

lemma timer_inv_register:
  "session_inv p \<Longrightarrow> timer_inv p \<Longrightarrow> timer_inv (setupMeetingBaasClient w p)"
  by (auto simp: session_inv_def timer_inv_def setupMeetingBaasClient_def initSession_def Let_def)

lemma timer_inv_close:
  "timer_inv p \<Longrightarrow> timer_inv (meeting_close cfg now w p)"
  by (auto simp: timer_inv_def meeting_close_def Let_def endSession_armed endSession_interval
      split: option.splits)

lemma timer_inv_step:
  "session_inv p \<Longrightarrow> timer_inv p \<Longrightarrow> timer_inv (relay_step cfg ev p)"
  by (cases ev) (simp_all add: timer_inv_register timer_inv_close)

lemma timer_inv_run:
  "session_inv p \<Longrightarrow> timer_inv p \<Longrightarrow> timer_inv (relay_run cfg evs p)"
  by (induction evs arbitrary: p) (simp_all add: timer_inv_step session_inv_step)

text \<open>
  Claim C7 (amended). The client's start operation does not test for a running session:
  every call of \<^verbatim>\<open>initSession\<close> arms one more repeating timer, keeps its handle, returns
  \<^verbatim>\<open>true\<close> and leaves the audio segment as it is. Starting once is the relay's doing: a
  registration while its session flag is set does not call the client and changes nothing
  in it, a registration while the flag is clear calls \<^verbatim>\<open>initSession\<close> once and sets the flag,
  and after every sequence of registrations and deregistrations at most one timer is armed.
\<close>

theorem start_is_guarded_by_the_relay:
  "length (armed (fst (initSession c))) = Suc (length (armed c))
   \<and> nextHandle c \<in> set (armed (fst (initSession c)))
   \<and> processingInterval (fst (initSession c)) = Some (nextHandle c)
   \<and> snd (initSession c) = True
   \<and> audioBuffer (fst (initSession c)) = audioBuffer c
   \<and> (isGladiaSessionActive p \<longrightarrow>
        gladiaClient (setupMeetingBaasClient w p) = gladiaClient p
        \<and> isGladiaSessionActive (setupMeetingBaasClient w p))
   \<and> (\<not> isGladiaSessionActive p \<longrightarrow>
        gladiaClient (setupMeetingBaasClient w p) = fst (initSession (gladiaClient p))
        \<and> isGladiaSessionActive (setupMeetingBaasClient w p))
   \<and> length (armed (gladiaClient (relay_run cfg evs (new_proxy botId existing)))) \<le> 1"
proof -
  have "timer_inv (relay_run cfg evs (new_proxy botId existing))"
    by (rule timer_inv_run [OF session_inv_new timer_inv_new])
  then have "length (armed (gladiaClient (relay_run cfg evs (new_proxy botId existing)))) \<le> 1"
    by (simp add: timer_inv_def split: option.splits)
  then show ?thesis
    by (simp add: initSession_def setupMeetingBaasClient_def Let_def)
qed

theorem start_is_guarded_by_the_relay_witness:
  "isGladiaSessionActive (setupMeetingBaasClient 7 (new_proxy None None))
   \<and> gladiaClient (setupMeetingBaasClient 8 (setupMeetingBaasClient 7 (new_proxy None None)))
       = gladiaClient (setupMeetingBaasClient 7 (new_proxy None None))
   \<and> \<not> isGladiaSessionActive (new_proxy None None)
   \<and> gladiaClient (setupMeetingBaasClient 7 (new_proxy None None))
       = fst (initSession (gladiaClient (new_proxy None None)))
   \<and> armed (gladiaClient (setupMeetingBaasClient 7 (new_proxy None None))) = [0]"
proof -
  have a: "\<not> isGladiaSessionActive (new_proxy None None)"
    by (simp add: new_proxy_def)
  from start_is_guarded_by_the_relay [of "gladiaClient (new_proxy None None)" "new_proxy None None" 7] a
  have b: "gladiaClient (setupMeetingBaasClient 7 (new_proxy None None))
       = fst (initSession (gladiaClient (new_proxy None None)))"
    and c: "isGladiaSessionActive (setupMeetingBaasClient 7 (new_proxy None None))"
    by blast+
  from start_is_guarded_by_the_relay
    [of "gladiaClient (new_proxy None None)" "setupMeetingBaasClient 7 (new_proxy None None)" 8] c
  have d: "gladiaClient (setupMeetingBaasClient 8 (setupMeetingBaasClient 7 (new_proxy None None)))
       = gladiaClient (setupMeetingBaasClient 7 (new_proxy None None))"
    by blast
  have e: "armed (gladiaClient (setupMeetingBaasClient 7 (new_proxy None None))) = [0]"
    by (subst b) (simp add: new_proxy_def new_client_def onTranscription_def initSession_def)
  from a b c d e show ?thesis by blast
qed

text \<open>
  The claim as written: a second call of the start operation arms a second timer, and a
  start does not empty a segment that holds audio.
\<close>

theorem start_twice_counterexample:
  "armed (fst (initSession (fst (initSession (new_client None))))) = [0, 1]
   \<and> armed (fst (initSession (new_client None))) = [0]
   \<and> fst (initSession (fst (initSession (new_client None)))) \<noteq> fst (initSession (new_client None))
   \<and> audioBuffer (fst (initSession (sendAudioChunk [1] (new_client None)))) = [[1]]"
proof -
  have a: "armed (fst (initSession (fst (initSession (new_client None))))) = [0, 1]"
    by (simp add: initSession_def new_client_def)
  have b: "armed (fst (initSession (new_client None))) = [0]"
    by (simp add: initSession_def new_client_def)
  have c: "fst (initSession (fst (initSession (new_client None)))) \<noteq> fst (initSession (new_client None))"
  proof
    assume "fst (initSession (fst (initSession (new_client None)))) = fst (initSession (new_client None))"
    then have "armed (fst (initSession (fst (initSession (new_client None)))))
       = armed (fst (initSession (new_client None)))" by simp
    with a b show False by simp
  qed
  have d: "audioBuffer (fst (initSession (sendAudioChunk [1] (new_client None)))) = [[1]]"
    by (simp add: initSession_def new_client_def sendAudioChunk_def)
  from a b c d show ?thesis by blast
qed

section \<open>The first message, and the transcripts sent on\<close>

lemma classify_bot_iff:
  "(classify JSON_parse message = Bot) =
     (\<exists>kvs. JSON_parse (toString message) = Some (JObj kvs)
        \<and> map_of kvs (lit ''type'') = Some (JStr (lit ''register''))
        \<and> map_of kvs (lit ''client'') = Some (JStr (lit ''bot'')))"
proof (cases "JSON_parse (toString message)")
  case None
  then show ?thesis by (simp add: classify_def classify_try_def)
next
  case (Some msg)
  then show ?thesis
    by (cases msg) (auto simp: classify_def classify_try_def split: sum.splits)
qed

text \<open>
  Claim C8. The first message of a connection makes it the bot connection exactly when
  \<^verbatim>\<open>JSON.parse\<close> of its text returns an object whose property type is the string register and
  whose property client is the string bot. In every other case it becomes a meeting
  connection: when the parse throws, when a property read throws (the value null), and when
  the parsed value has another shape. No exception of the try block leaves the handler.
\<close>

theorem first_message_classification:
  "(classify JSON_parse message = Bot) =
     (\<exists>kvs. JSON_parse (toString message) = Some (JObj kvs)
        \<and> map_of kvs (lit ''type'') = Some (JStr (lit ''register''))
        \<and> map_of kvs (lit ''client'') = Some (JStr (lit ''bot'')))
   \<and> (classify JSON_parse message \<noteq> Bot \<longrightarrow> classify JSON_parse message = Meeting)
   \<and> (classify_try JSON_parse message = Inl e \<longrightarrow> classify JSON_parse message = Meeting)
   \<and> (classify JSON_parse message = Bot \<longrightarrow>
        first_message JSON_parse w message p = setupBotClient w p)
   \<and> (classify JSON_parse message = Meeting \<longrightarrow>
        first_message JSON_parse w message p = setupMeetingBaasClient w p)"
proof -
  have a: "classify JSON_parse message \<noteq> Bot \<longrightarrow> classify JSON_parse message = Meeting"
    by (cases "classify JSON_parse message") simp_all
  have b: "classify_try JSON_parse message = Inl e \<longrightarrow> classify JSON_parse message = Meeting"
    by (simp add: classify_def)
  have c: "classify JSON_parse message = Bot \<longrightarrow>
        first_message JSON_parse w message p = setupBotClient w p"
    by (simp add: first_message_def)
  have d: "classify JSON_parse message = Meeting \<longrightarrow>
        first_message JSON_parse w message p = setupMeetingBaasClient w p"
    by (simp add: first_message_def)
  from classify_bot_iff [of JSON_parse message] a b c d show ?thesis by blast
qed

lemma register_text_neq: "lit ''null'' \<noteq> register_text" "lit ''[1]'' \<noteq> register_text" "lit ''oops'' \<noteq> register_text"
  by (simp_all add: register_text_def lit_def)

theorem first_message_classification_witness:
  "classify demo_parse (Textual register_text) = Bot
   \<and> first_message demo_parse 9 (Textual register_text) (new_proxy None None)
        = setupBotClient 9 (new_proxy None None)
   \<and> classify_try demo_parse (Textual (lit ''null'')) = Inl TypeError
   \<and> classify demo_parse (Textual (lit ''null'')) = Meeting
   \<and> classify_try demo_parse (Binary [255, 0]) = Inl SyntaxError
   \<and> classify demo_parse (Binary [255, 0]) = Meeting
   \<and> classify demo_parse (Textual (lit ''[1]'')) \<noteq> Bot
   \<and> first_message demo_parse 7 (Textual (lit ''[1]'')) (new_proxy None None)
        = setupMeetingBaasClient 7 (new_proxy None None)"
proof -
  have p1: "\<exists>kvs. demo_parse (toString (Textual register_text)) = Some (JObj kvs)
        \<and> map_of kvs (lit ''type'') = Some (JStr (lit ''register''))
        \<and> map_of kvs (lit ''client'') = Some (JStr (lit ''bot''))"
    by (simp add: demo_parse_def lit_def)
  have p2: "classify_try demo_parse (Textual (lit ''null'')) = Inl TypeError"
    by (simp add: classify_try_def demo_parse_def register_text_neq)
  have p3: "classify_try demo_parse (Binary [255, 0]) = Inl SyntaxError"
    by (simp add: classify_try_def demo_parse_def utf8_decode_def register_text_def lit_def)
  have p4: "\<not> (\<exists>kvs. demo_parse (toString (Textual (lit ''[1]''))) = Some (JObj kvs)
        \<and> map_of kvs (lit ''type'') = Some (JStr (lit ''register''))
        \<and> map_of kvs (lit ''client'') = Some (JStr (lit ''bot'')))"
    by (simp add: demo_parse_def register_text_def lit_def)
  note t1 = first_message_classification [of demo_parse "Textual register_text" TypeError 9 "new_proxy None None"]
  note t2 = first_message_classification [of demo_parse "Textual (lit ''null'')" TypeError 7 "new_proxy None None"]
  note t3 = first_message_classification [of demo_parse "Binary [255, 0]" SyntaxError 7 "new_proxy None None"]
  note t4 = first_message_classification [of demo_parse "Textual (lit ''[1]'')" TypeError 7 "new_proxy None None"]
  have c1: "classify demo_parse (Textual register_text) = Bot" using t1 p1 by blast
  have c2: "classify demo_parse (Textual (lit ''null'')) = Meeting" using t2 p2 by blast
  have c3: "classify demo_parse (Binary [255, 0]) = Meeting" using t3 p3 by blast
  have c4: "classify demo_parse (Textual (lit ''[1]'')) \<noteq> Bot" using t4 p4 by blast
  from t1 c1 have f1: "first_message demo_parse 9 (Textual register_text) (new_proxy None None)
        = setupBotClient 9 (new_proxy None None)" by blast
  from t4 c4 have f4: "first_message demo_parse 7 (Textual (lit ''[1]'')) (new_proxy None None)
        = setupMeetingBaasClient 7 (new_proxy None None)" by blast
  from c1 f1 p2 c2 p3 c3 c4 f4 show ?thesis by blast
qed

lemma data_isFinal_msg: "data_isFinal (transcriptionMsg txt isFinal t1 t2) = Some (JBool isFinal)"
  by (simp add: data_isFinal_def transcriptionMsg_def lit_def)

lemma resume_all_final:
  "\<forall>ev \<in> set (snd (processAudioBuffer_resume k reply c)). snd ev = True"
  using resume_emits [of k reply c] by auto

lemma on_transcription_sends:
  "sends (on_transcription readyState t1 t2 ev p)
     = sends p @ (case botClient p of
                    None \<Rightarrow> []
                  | Some b \<Rightarrow>
                      if readyState b = OPEN
                      then [(b, SendStringified (transcriptionMsg (fst ev) (snd ev) t1 t2))]
                      else [])"
  by (auto simp: on_transcription_def on_transcription_send_def on_transcription_begin_def
      split: option.splits)

lemma on_transcription_appended:
  "appended (on_transcription readyState t1 t2 ev p)
     = appended p @ (case activeBotId p of
                       None \<Rightarrow> []
                     | Some botId \<Rightarrow> if snd ev \<and> botId \<noteq> [] then [(botId, fst ev)] else [])"
  by (auto simp: on_transcription_def on_transcription_send_def on_transcription_begin_def
      split: option.splits)

lemma relay_settles_cases:
  "(snd (processAudioBuffer_resume k reply (gladiaClient p)) = []
      \<and> relay_settles readyState t1 t2 k reply p
          = p\<lparr>gladiaClient := fst (processAudioBuffer_resume k reply (gladiaClient p))\<rparr>)
   \<or> (\<exists>txt. snd (processAudioBuffer_resume k reply (gladiaClient p)) = [(txt, True)]
         \<and> relay_settles readyState t1 t2 k reply p
             = on_transcription readyState t1 t2 (txt, True)
                 (p\<lparr>gladiaClient := fst (processAudioBuffer_resume k reply (gladiaClient p))\<rparr>))"
  using resume_emits [of k reply "gladiaClient p"]
  by (auto simp: relay_settles_def Let_def)

text \<open>
  Claim C10. Every call a flush makes to the transcription callback has isFinal = true.
  So what the relay sends to the bot connection when a request settles are, if the bot
  connection is there and open, the transcription messages of these calls, each with
  \<^verbatim>\<open>data.isFinal\<close> true, and with a bot identifier that is set (not null, not empty) each of
  their texts is handed to \<^verbatim>\<open>appendTranscription\<close> with that identifier.
\<close>

theorem transcripts_are_final:
  "(\<forall>ev \<in> set (snd (processAudioBuffer_resume k reply c)). snd ev = True)
   \<and> sends (relay_settles readyState t1 t2 k reply p)
       = sends p @ (case botClient p of
                      None \<Rightarrow> []
                    | Some b \<Rightarrow>
                        if readyState b = OPEN
                        then map (\<lambda>ev. (b, SendStringified (transcriptionMsg (fst ev) True t1 t2)))
                               (snd (processAudioBuffer_resume k reply (gladiaClient p)))
                        else [])
   \<and> data_isFinal (transcriptionMsg txt True t1 t2) = Some (JBool True)
   \<and> (activeBotId p = Some botId \<and> botId \<noteq> [] \<longrightarrow>
        appended (relay_settles readyState t1 t2 k reply p)
          = appended p @ map (\<lambda>ev. (botId, fst ev))
                           (snd (processAudioBuffer_resume k reply (gladiaClient p))))"
proof -
  have s: "sends (relay_settles readyState t1 t2 k reply p)
       = sends p @ (case botClient p of
                      None \<Rightarrow> []
                    | Some b \<Rightarrow>
                        if readyState b = OPEN
                        then map (\<lambda>ev. (b, SendStringified (transcriptionMsg (fst ev) True t1 t2)))
                               (snd (processAudioBuffer_resume k reply (gladiaClient p)))
                        else [])"
    using relay_settles_cases [of k reply p readyState t1 t2]
    by (auto simp: on_transcription_sends split: option.splits)
  have a: "activeBotId p = Some botId \<and> botId \<noteq> [] \<longrightarrow>
        appended (relay_settles readyState t1 t2 k reply p)
          = appended p @ map (\<lambda>ev. (botId, fst ev))
                           (snd (processAudioBuffer_resume k reply (gladiaClient p)))"
    using relay_settles_cases [of k reply p readyState t1 t2]
    by (auto simp: on_transcription_appended split: option.splits)
  note f = resume_all_final [of k reply c]
  note d = data_isFinal_msg [of "txt" True t1 t2]
  from f s a d show ?thesis by blast
qed

theorem transcripts_are_final_witness:
  "snd (processAudioBuffer_resume 0 (Replied (Some (lit ''hi''))) (gladiaClient demo_flushing))
     = [(lit ''hi'', True)]
   \<and> activeBotId demo_flushing = Some (lit ''bot-1'') \<and> lit ''bot-1'' \<noteq> []
   \<and> appended (relay_settles (\<lambda>w. OPEN) 6000 6001 0 (Replied (Some (lit ''hi''))) demo_flushing)
       = appended demo_flushing @ [(lit ''bot-1'', lit ''hi'')]
   \<and> sends (relay_settles (\<lambda>w. OPEN) 6000 6001 0 (Replied (Some (lit ''hi''))) demo_flushing)
       = sends demo_flushing @ [(9, SendStringified (transcriptionMsg (lit ''hi'') True 6000 6001))]"
proof -
  have e: "snd (processAudioBuffer_resume 0 (Replied (Some (lit ''hi''))) (gladiaClient demo_flushing))
     = [(lit ''hi'', True)]"
    by (simp add: demo_flushing_client processAudioBuffer_resume_def unlinkSync_def lit_def)
  have b: "activeBotId demo_flushing = Some (lit ''bot-1'')" "lit ''bot-1'' \<noteq> []"
    by (simp_all add: demo_flushing_def relay_timer_def setupBotClient_def demo_relay_def
        meeting_message_def meeting_branch_def meeting_try_def forward_to_bot_def
        setupMeetingBaasClient_def new_proxy_def Let_def lit_def)
  note t = transcripts_are_final [of 0 "Replied (Some (lit ''hi''))" "gladiaClient demo_flushing"
      "\<lambda>w. OPEN" 6000 6001 demo_flushing "lit ''hi''" "lit ''bot-1''"]
  from t b have a: "appended (relay_settles (\<lambda>w. OPEN) 6000 6001 0 (Replied (Some (lit ''hi''))) demo_flushing)
       = appended demo_flushing @ map (\<lambda>ev. (lit ''bot-1'', fst ev))
           (snd (processAudioBuffer_resume 0 (Replied (Some (lit ''hi''))) (gladiaClient demo_flushing)))"
    by blast
  from t have s: "sends (relay_settles (\<lambda>w. OPEN) 6000 6001 0 (Replied (Some (lit ''hi''))) demo_flushing)
       = sends demo_flushing @ (case botClient demo_flushing of
                      None \<Rightarrow> []
                    | Some b \<Rightarrow>
                        if (\<lambda>w. OPEN) b = OPEN
                        then map (\<lambda>ev. (b, SendStringified (transcriptionMsg (fst ev) True 6000 6001)))
                               (snd (processAudioBuffer_resume 0 (Replied (Some (lit ''hi''))) (gladiaClient demo_flushing)))
                        else [])"
    by blast
  from e b a s show ?thesis by (simp add: demo_flushing_bot)
qed

section \<open>What the bot receives of a meeting connection's messages\<close>

lemma enc_ascii: "x < 128 \<Longrightarrow> enc1 x = [x]"
  by (simp add: enc1_def)

lemma enc2: "2 \<le> x \<Longrightarrow> x < 32 \<Longrightarrow> y < 64 \<Longrightarrow> enc1 (x * 64 + y) = [192 + x, 128 + y]"
  by (simp add: enc1_def)

lemma enc3:
  "x < 16 \<Longrightarrow> y < 64 \<Longrightarrow> z < 64 \<Longrightarrow> (x = 0 \<longrightarrow> 32 \<le> y) \<Longrightarrow> (x = 13 \<longrightarrow> y < 32)
   \<Longrightarrow> enc1 (x * 4096 + y * 64 + z) = [224 + x, 128 + y, 128 + z]"
proof -
  assume a: "x < 16" "y < 64" "z < 64" "x = 0 \<longrightarrow> 32 \<le> y" "x = 13 \<longrightarrow> y < 32"
  have r1: "\<not> x * 4096 + y * 64 + z < 2048"
  proof (cases "x = 0")
    case True
    with a have "32 \<le> y" by simp
    then show ?thesis by linarith
  next
    case False
    then have "1 \<le> x" by simp
    then show ?thesis by linarith
  qed
  have r2: "\<not> (55296 \<le> x * 4096 + y * 64 + z \<and> x * 4096 + y * 64 + z \<le> 57343)"
  proof -
    consider "x \<le> 12" | "x = 13" | "14 \<le> x" by linarith
    then show ?thesis
    proof cases
      case 1
      with a show ?thesis by linarith
    next
      case 2
      with a have "y < 32" by simp
      with 2 a show ?thesis by linarith
    next
      case 3
      then show ?thesis by linarith
    qed
  qed
  have r3: "x * 4096 + y * 64 + z < 65536" using a by linarith
  have d1: "(x * 4096 + y * 64 + z) div 4096 = x" using a by simp
  have d2: "(x * 4096 + y * 64 + z) div 64 mod 64 = y"
  proof -
    have "(x * 4096 + y * 64 + z) div 64 = x * 64 + y" using a by simp
    then show ?thesis using a by simp
  qed
  have d3: "(x * 4096 + y * 64 + z) mod 64 = z"
  proof -
    have "x * 4096 + y * 64 + z = (x * 64 + y) * 64 + z" by simp
    then show ?thesis using a by (simp only: mod_mult_self3 mod_less)
  qed
  show ?thesis using r1 r2 r3 d1 d2 d3 by (simp add: enc1_def)
qed

lemma enc4:
  "x < 5 \<Longrightarrow> y < 64 \<Longrightarrow> z < 64 \<Longrightarrow> w < 64 \<Longrightarrow> (x = 0 \<longrightarrow> 16 \<le> y) \<Longrightarrow> (x = 4 \<longrightarrow> y < 16)
   \<Longrightarrow> enc1 (x * 262144 + y * 4096 + z * 64 + w) = [240 + x, 128 + y, 128 + z, 128 + w]"
proof -
  assume a: "x < 5" "y < 64" "z < 64" "w < 64" "x = 0 \<longrightarrow> 16 \<le> y" "x = 4 \<longrightarrow> y < 16"
  let ?cp = "x * 262144 + y * 4096 + z * 64 + w"
  have r1: "\<not> ?cp < 65536"
  proof (cases "x = 0")
    case True
    with a have "16 \<le> y" by simp
    then show ?thesis by linarith
  next
    case False
    then have "1 \<le> x" by simp
    then show ?thesis by linarith
  qed
  have r2: "\<not> 1114111 < ?cp"
  proof (cases "x = 4")
    case True
    with a have "y < 16" by simp
    with True a show ?thesis by linarith
  next
    case False
    with a have "x \<le> 3" by simp
    with a show ?thesis by linarith
  qed
  have d1: "?cp div 262144 = x" using a by simp
  have d2: "?cp div 4096 mod 64 = y"
  proof -
    have "?cp div 4096 = x * 64 + y" using a by simp
    then show ?thesis using a by simp
  qed
  have d3: "?cp div 64 mod 64 = z"
  proof -
    have "?cp div 64 = (x * 64 + y) * 64 + z" using a by simp
    then show ?thesis using a by (simp only: mod_mult_self3 mod_less)
  qed
  have d4: "?cp mod 64 = w"
  proof -
    have "?cp = ((x * 64 + y) * 64 + z) * 64 + w" by simp
    then show ?thesis using a by (simp only: mod_mult_self3 mod_less)
  qed
  show ?thesis using r1 r2 d1 d2 d3 d4 by (simp add: enc1_def)
qed

lemma dec_roundtrip: "well_formed bs \<Longrightarrow> concat (map enc1 (dec bs)) = bs"
proof (induction bs rule: dec.induct)
  case 1
  show ?case by simp
next
  case (2 b bs)
  consider (ascii) "b < 128" | (two) "194 \<le> b" "b \<le> 223" | (three) "224 \<le> b" "b \<le> 239"
    | (four) "240 \<le> b" "b \<le> 244" | (bad) "128 \<le> b" "b < 194 \<or> 244 < b"
    by linarith
  then show ?case
  proof cases
    case ascii
    with "2.prems" have "well_formed bs" by simp
    with "2.IH"(1) ascii have "concat (map enc1 (dec bs)) = bs" by simp
    with ascii show ?thesis by (simp add: enc_ascii)
  next
    case two
    with "2.prems" obtain c1 r1 where bs: "bs = c1 # r1" and c: "cont c1" and w: "well_formed r1"
      by (auto split: list.splits)
    from "2.IH"(2) two bs c w have ih: "concat (map enc1 (dec r1)) = r1" by simp
    from two c have "enc1 ((b - 192) * 64 + (c1 - 128)) = [192 + (b - 192), 128 + (c1 - 128)]"
      by (intro enc2) (auto simp: cont_def)
    with two c have "enc1 ((b - 192) * 64 + (c1 - 128)) = [b, c1]" by (auto simp: cont_def)
    with two bs c ih show ?thesis by simp
  next
    case three
    with "2.prems" obtain c1 c2 r2 where bs: "bs = c1 # c2 # r2"
      and c1: "(if b = 224 then 160 else 128) \<le> c1" "c1 \<le> (if b = 237 then 159 else 191)"
      and c2: "cont c2" and w: "well_formed r2"
      by (auto split: list.splits)
    from "2.IH"(4) three bs c1 c2 w have ih: "concat (map enc1 (dec r2)) = r2" by simp
    have lo: "128 \<le> c1" using c1(1) by (simp split: if_splits)
    have hi: "c1 \<le> 191" using c1(2) by (simp split: if_splits)
    have "enc1 ((b - 224) * 4096 + (c1 - 128) * 64 + (c2 - 128))
        = [224 + (b - 224), 128 + (c1 - 128), 128 + (c2 - 128)]"
    proof (intro enc3)
      show "b - 224 < 16" using three by simp
      show "c1 - 128 < 64" using hi lo by simp
      show "c2 - 128 < 64" using c2 by (auto simp: cont_def)
      show "b - 224 = 0 \<longrightarrow> 32 \<le> c1 - 128" using three c1(1) by (auto split: if_splits)
      show "b - 224 = 13 \<longrightarrow> c1 - 128 < 32" using three c1(2) lo by (auto split: if_splits)
    qed
    with three lo c2 have "enc1 ((b - 224) * 4096 + (c1 - 128) * 64 + (c2 - 128)) = [b, c1, c2]"
      by (auto simp: cont_def)
    with three bs c1 c2 ih show ?thesis by simp
  next
    case four
    with "2.prems" obtain c1 c2 c3 r3 where bs: "bs = c1 # c2 # c3 # r3"
      and c1: "(if b = 240 then 144 else 128) \<le> c1" "c1 \<le> (if b = 244 then 143 else 191)"
      and c2: "cont c2" and c3: "cont c3" and w: "well_formed r3"
      by (auto split: list.splits)
    from "2.IH"(7) four bs c1 c2 c3 w have ih: "concat (map enc1 (dec r3)) = r3" by simp
    have lo: "128 \<le> c1" using c1(1) by (simp split: if_splits)
    have hi: "c1 \<le> 191" using c1(2) by (simp split: if_splits)
    have "enc1 ((b - 240) * 262144 + (c1 - 128) * 4096 + (c2 - 128) * 64 + (c3 - 128))
        = [240 + (b - 240), 128 + (c1 - 128), 128 + (c2 - 128), 128 + (c3 - 128)]"
    proof (intro enc4)
      show "b - 240 < 5" using four by simp
      show "c1 - 128 < 64" using hi lo by simp
      show "c2 - 128 < 64" using c2 by (auto simp: cont_def)
      show "c3 - 128 < 64" using c3 by (auto simp: cont_def)
      show "b - 240 = 0 \<longrightarrow> 16 \<le> c1 - 128" using four c1(1) by (auto split: if_splits)
      show "b - 240 = 4 \<longrightarrow> c1 - 128 < 16" using four c1(2) lo by (auto split: if_splits)
    qed
    with four lo c2 c3
    have "enc1 ((b - 240) * 262144 + (c1 - 128) * 4096 + (c2 - 128) * 64 + (c3 - 128))
        = [b, c1, c2, c3]"
      by (auto simp: cont_def)
    with four bs c1 c2 c3 ih show ?thesis by simp
  next
    case bad
    with "2.prems" show ?thesis by auto
  qed
qed

lemma enc_replacement: "enc1 65533 = [239, 191, 189]"
  by (simp add: enc1_def)

lemma dec_roundtrip_only: "concat (map enc1 (dec bs)) = bs \<Longrightarrow> well_formed bs"
proof (induction bs rule: dec.induct)
  case 1
  show ?case by simp
next
  case (2 b bs)
  consider (ascii) "b < 128" | (two) "194 \<le> b" "b \<le> 223" | (three) "224 \<le> b" "b \<le> 239"
    | (four) "240 \<le> b" "b \<le> 244" | (bad) "128 \<le> b" "b < 194 \<or> 244 < b"
    by linarith
  then show ?case
  proof cases
    case ascii
    with "2.prems" have "concat (map enc1 (dec bs)) = bs" by (simp add: enc_ascii)
    with "2.IH"(1) ascii have "well_formed bs" by simp
    with ascii show ?thesis by simp
  next
    case two
    show ?thesis
    proof (cases bs)
      case Nil
      with "2.prems" two show ?thesis by (simp add: enc_replacement)
    next
      case (Cons c1 r1)
      show ?thesis
      proof (cases "cont c1")
        case True
        from two True have "enc1 ((b - 192) * 64 + (c1 - 128)) = [192 + (b - 192), 128 + (c1 - 128)]"
          by (intro enc2) (auto simp: cont_def)
        with two True have e: "enc1 ((b - 192) * 64 + (c1 - 128)) = [b, c1]" by (auto simp: cont_def)
        with "2.prems" two Cons True have "concat (map enc1 (dec r1)) = r1" by simp
        with "2.IH"(2) two Cons True have "well_formed r1" by simp
        with two Cons True show ?thesis by simp
      next
        case False
        with "2.prems" two Cons show ?thesis by (simp add: enc_replacement)
      qed
    qed
  next
    case three
    show ?thesis
    proof (cases bs)
      case Nil
      with "2.prems" three show ?thesis by (simp add: enc_replacement)
    next
      case c1: (Cons c1 r1)
      show ?thesis
      proof (cases "(if b = 224 then 160 else 128) \<le> c1 \<and> c1 \<le> (if b = 237 then 159 else 191)")
        case inr: True
        have lo: "128 \<le> c1" using inr by (simp split: if_splits)
        have hi: "c1 \<le> 191" using inr by (simp split: if_splits)
        show ?thesis
        proof (cases r1)
          case Nil
          with "2.prems" three c1 inr show ?thesis by (simp add: enc_replacement)
        next
          case c2: (Cons c2 r2)
          show ?thesis
          proof (cases "cont c2")
            case True
            have "enc1 ((b - 224) * 4096 + (c1 - 128) * 64 + (c2 - 128))
                = [224 + (b - 224), 128 + (c1 - 128), 128 + (c2 - 128)]"
            proof (intro enc3)
              show "b - 224 < 16" using three by simp
              show "c1 - 128 < 64" using hi lo by simp
              show "c2 - 128 < 64" using True by (auto simp: cont_def)
              show "b - 224 = 0 \<longrightarrow> 32 \<le> c1 - 128" using three inr by (auto split: if_splits)
              show "b - 224 = 13 \<longrightarrow> c1 - 128 < 32" using three inr lo by (auto split: if_splits)
            qed
            with three lo True
            have e: "enc1 ((b - 224) * 4096 + (c1 - 128) * 64 + (c2 - 128)) = [b, c1, c2]"
              by (auto simp: cont_def)
            with "2.prems" three c1 c2 inr True have "concat (map enc1 (dec r2)) = r2" by simp
            with "2.IH"(4) three c1 c2 inr True have "well_formed r2" by simp
            with three c1 c2 inr True show ?thesis by simp
          next
            case False
            with "2.prems" three c1 c2 inr show ?thesis
              by (auto simp: enc_replacement cont_def)
          qed
        qed
      next
        case False
        with "2.prems" three c1 show ?thesis
          by (auto simp: enc_replacement split: if_splits)
      qed
    qed
  next
    case four
    show ?thesis
    proof (cases bs)
      case Nil
      with "2.prems" four show ?thesis by (simp add: enc_replacement)
    next
      case c1: (Cons c1 r1)
      show ?thesis
      proof (cases "(if b = 240 then 144 else 128) \<le> c1 \<and> c1 \<le> (if b = 244 then 143 else 191)")
        case inr: True
        have lo: "128 \<le> c1" using inr by (simp split: if_splits)
        have hi: "c1 \<le> 191" using inr by (simp split: if_splits)
        show ?thesis
        proof (cases r1)
          case Nil
          with "2.prems" four c1 inr show ?thesis by (simp add: enc_replacement)
        next
          case c2: (Cons c2 r2)
          show ?thesis
          proof (cases "cont c2")
            case t2: True
            show ?thesis
            proof (cases r2)
              case Nil
              with "2.prems" four c1 c2 inr t2 show ?thesis by (simp add: enc_replacement)
            next
              case c3: (Cons c3 r3)
              show ?thesis
              proof (cases "cont c3")
                case t3: True
                have "enc1 ((b - 240) * 262144 + (c1 - 128) * 4096 + (c2 - 128) * 64 + (c3 - 128))
                  = [240 + (b - 240), 128 + (c1 - 128), 128 + (c2 - 128), 128 + (c3 - 128)]"
                proof (intro enc4)
                  show "b - 240 < 5" using four by simp
                  show "c1 - 128 < 64" using hi lo by simp
                  show "c2 - 128 < 64" using t2 by (auto simp: cont_def)
                  show "c3 - 128 < 64" using t3 by (auto simp: cont_def)
                  show "b - 240 = 0 \<longrightarrow> 16 \<le> c1 - 128" using four inr by (auto split: if_splits)
                  show "b - 240 = 4 \<longrightarrow> c1 - 128 < 16" using four inr lo by (auto split: if_splits)
                qed
                with four lo t2 t3
                have e: "enc1 ((b - 240) * 262144 + (c1 - 128) * 4096 + (c2 - 128) * 64 + (c3 - 128))
                  = [b, c1, c2, c3]"
                  by (auto simp: cont_def)
                with "2.prems" four c1 c2 c3 inr t2 t3 have "concat (map enc1 (dec r3)) = r3" by simp
                with "2.IH"(7) four c1 c2 c3 inr t2 t3 have "well_formed r3" by simp
                with four c1 c2 c3 inr t2 t3 show ?thesis by simp
              next
                case False
                with "2.prems" four c1 c2 c3 inr t2 show ?thesis by (simp add: enc_replacement)
              qed
            qed
          next
            case False
            with "2.prems" four c1 c2 inr show ?thesis by (simp add: enc_replacement)
          qed
        qed
      next
        case False
        with "2.prems" four c1 show ?thesis by (simp add: enc_replacement)
      qed
    qed
  next
    case bad
    with "2.prems" show ?thesis by (auto simp: enc_replacement)
  qed
qed

lemma enc1_bytes: "x \<in> set (enc1 cp) \<Longrightarrow> x < 256"
proof -
  assume x: "x \<in> set (enc1 cp)"
  have a: "cp < 2048 \<Longrightarrow> cp div 64 < 32" by (simp add: less_mult_imp_div_less)
  have b: "cp < 65536 \<Longrightarrow> cp div 4096 < 16" by (simp add: less_mult_imp_div_less)
  have c: "\<not> 1114111 < cp \<Longrightarrow> cp div 262144 < 5" by (simp add: less_mult_imp_div_less)
  have m: "cp mod 64 < 64" "cp div 64 mod 64 < 64" "cp div 4096 mod 64 < 64" by simp_all
  from x a b c m show ?thesis
    by (auto simp: enc1_def split: if_splits)
qed

lemma unat_of_nat_bytes:
  "\<forall>x \<in> set xs. x < 256 \<Longrightarrow> map unat (map of_nat xs :: byte list) = xs"
  by (induction xs) (simp_all add: unat_of_nat)

lemma of_nat_unat_bytes: "map of_nat (map unat buf) = (buf :: byte list)"
  by (induction buf) simp_all

lemma utf8_roundtrip_iff:
  "(utf8_encode (utf8_decode buf) = buf) = well_formed (map unat buf)"
proof
  assume eq: "utf8_encode (utf8_decode buf) = buf"
  have small: "\<forall>x \<in> set (concat (map enc1 (dec (map unat buf)))). x < 256"
    by (auto dest: enc1_bytes)
  from eq have "map unat (map of_nat (concat (map enc1 (dec (map unat buf)))) :: byte list)
      = map unat buf"
    by (simp add: utf8_encode_def utf8_decode_def)
  with small have "concat (map enc1 (dec (map unat buf))) = map unat buf"
    by (simp only: unat_of_nat_bytes)
  then show "well_formed (map unat buf)" by (rule dec_roundtrip_only)
next
  assume "well_formed (map unat buf)"
  then have e: "concat (map enc1 (dec (map unat buf))) = map unat buf" by (rule dec_roundtrip)
  show "utf8_encode (utf8_decode buf) = buf"
    unfolding utf8_encode_def utf8_decode_def by (simp only: e of_nat_unat_bytes)
qed

lemma speaker_update_frame:
  "sends (speaker_update x p) = sends p \<and> botClient (speaker_update x p) = botClient p"
  by (simp add: speaker_update_def Let_def)

lemma meeting_try_frame:
  "meeting_try JSON_parse buf p = Inr p' \<Longrightarrow> sends p' = sends p \<and> botClient p' = botClient p"
  by (auto simp: meeting_try_def speaker_update_frame
      split: option.splits json.splits list.splits sum.splits if_splits)

lemma meeting_branch_frame:
  "sends (meeting_branch JSON_parse message p) = sends p
   \<and> botClient (meeting_branch JSON_parse message p) = botClient p"
  by (auto simp: meeting_branch_def dest: meeting_try_frame split: raw_data.splits sum.splits)

text \<open>
  Claim C9 (amended). For every message of a meeting connection, whichever branch it takes,
  the relay sends \<^verbatim>\<open>message.toString()\<close> to the bot connection if one is registered and open,
  and nothing otherwise. The bytes the bot is sent are the bytes of the payload exactly when
  the payload is a string, or a buffer that is well-formed UTF-8.
\<close>

theorem meeting_payload_forwarded:
  "sends (meeting_message JSON_parse readyState message p)
     = sends p @ (case botClient p of
                    None \<Rightarrow> []
                  | Some b \<Rightarrow> if readyState b = OPEN then [(b, SendString (toString message))] else [])
   \<and> (utf8_encode (toString message) = payload_bytes message)
       = (case message of Textual s \<Rightarrow> True | Binary buf \<Rightarrow> well_formed (map unat buf))"
proof -
  have a: "sends (meeting_message JSON_parse readyState message p)
     = sends p @ (case botClient p of
                    None \<Rightarrow> []
                  | Some b \<Rightarrow> if readyState b = OPEN then [(b, SendString (toString message))] else [])"
    by (simp add: meeting_message_def forward_to_bot_def meeting_branch_frame split: option.splits)
  have b: "(utf8_encode (toString message) = payload_bytes message)
       = (case message of Textual s \<Rightarrow> True | Binary buf \<Rightarrow> well_formed (map unat buf))"
    by (cases message) (simp_all add: utf8_roundtrip_iff)
  from a b show ?thesis by blast
qed

theorem meeting_payload_forwarded_witness:
  "sends (meeting_message demo_parse (\<lambda>w. OPEN) (Binary [104, 195, 169]) demo_flushing)
     = [(9, SendString [104, 233])]
   \<and> utf8_encode (toString (Binary [104, 195, 169])) = payload_bytes (Binary [104, 195, 169])
   \<and> sends (meeting_message demo_parse (\<lambda>w. CLOSED) (Textual register_text) demo_flushing) = []"
proof -
  have s0: "sends demo_flushing = []"
    by (simp add: demo_flushing_def relay_timer_def setupBotClient_def demo_relay_def
        meeting_message_def meeting_branch_frame forward_to_bot_def
        setupMeetingBaasClient_def new_proxy_def Let_def)
  have d: "toString (Binary [104, 195, 169]) = [104, 233]"
    by (simp add: utf8_decode_def cont_def)
  have w: "well_formed (map unat [104, 195, 169 :: byte])"
    by (simp add: cont_def)
  note t1 = meeting_payload_forwarded [of demo_parse "\<lambda>w. OPEN" "Binary [104, 195, 169]" demo_flushing]
  note t2 = meeting_payload_forwarded [of demo_parse "\<lambda>w. CLOSED" "Textual register_text" demo_flushing]
  from t1 s0 d have a: "sends (meeting_message demo_parse (\<lambda>w. OPEN) (Binary [104, 195, 169]) demo_flushing)
     = [(9, SendString [104, 233])]"
    by (simp add: demo_flushing_bot)
  from t1 w have b: "utf8_encode (toString (Binary [104, 195, 169])) = payload_bytes (Binary [104, 195, 169])"
    by simp
  from t2 s0 have c: "sends (meeting_message demo_parse (\<lambda>w. CLOSED) (Textual register_text) demo_flushing) = []"
    by (simp add: demo_flushing_bot)
  from a b c show ?thesis by blast
qed

text \<open>
  The claim as written: an audio chunk with the byte 255 is handed to the client unchanged,
  and reaches the bot as the three bytes of U+FFFD and a zero.
\<close>

theorem binary_payload_counterexample:
  "payload_bytes (Binary [255, 0]) = [255, 0]
   \<and> sends (meeting_message (\<lambda>s. None) (\<lambda>w. OPEN) (Binary [255, 0]) demo_flushing)
       = [(9, SendString [65533, 0])]
   \<and> utf8_encode [65533, 0] = [239, 191, 189, 0]
   \<and> utf8_encode (toString (Binary [255, 0])) \<noteq> payload_bytes (Binary [255, 0])
   \<and> audioBuffer (gladiaClient
        (meeting_message (\<lambda>s. None) (\<lambda>w. OPEN) (Binary [255, 0]) demo_flushing)) = [[255, 0]]"
proof -
  have s0: "sends demo_flushing = []"
    by (simp add: demo_flushing_def relay_timer_def setupBotClient_def demo_relay_def
        meeting_message_def meeting_branch_frame forward_to_bot_def
        setupMeetingBaasClient_def new_proxy_def Let_def)
  have act: "isGladiaSessionActive demo_flushing"
    by (simp add: demo_flushing_def relay_timer_def setupBotClient_def demo_relay_flags)
  have d: "toString (Binary [255, 0]) = [65533, 0]"
    by (simp add: utf8_decode_def)
  have e: "utf8_encode [65533, 0] = [239, 191, 189, 0]"
    by (simp add: utf8_encode_def enc1_def)
  have a: "sends (meeting_message (\<lambda>s. None) (\<lambda>w. OPEN) (Binary [255, 0]) demo_flushing)
       = [(9, SendString [65533, 0])]"
    using s0 d
    by (simp add: meeting_message_def forward_to_bot_def meeting_branch_frame demo_flushing_bot)
  have b: "audioBuffer (gladiaClient
        (meeting_message (\<lambda>s. None) (\<lambda>w. OPEN) (Binary [255, 0]) demo_flushing)) = [[255, 0]]"
    using act
    by (simp add: meeting_message_def forward_to_bot_def meeting_branch_def meeting_try_def
        demo_flushing_bot sendAudioChunk_def demo_flushing_client)
  from a b d e show ?thesis by simp
qed

end
